theory Spec2Isabelle
  imports Complex_Main "HOL-Library.Word"
begin

unbundle bit_operations_syntax

section \<open>C values and conversions\<close>

text \<open>
  The tools are C programs for an LP64 little-endian host. \<open>uint8_t\<close>, \<open>short\<close>,
  \<open>uint16_t\<close> and \<open>uint32_t\<close> are words of their width; an \<open>int\<close> whose overflow
  matters is an integer with the 32-bit wrap written out (\<open>int32\<close>); counters that stay
  far below \<open>2^31\<close> are plain integers.
\<close>

type_synonym byte = "8 word"
type_synonym short = "16 word"
type_synonym uint16 = "16 word"
type_synonym uint32 = "32 word"

text \<open>C's \<open>/\<close> on \<open>int\<close>: the quotient is truncated toward zero (C99 6.5.5).\<close>

definition c_div :: "int \<Rightarrow> int \<Rightarrow> int" where
  "c_div a b = (if (a < 0) = (b < 0) then \<bar>a\<bar> div \<bar>b\<bar> else - (\<bar>a\<bar> div \<bar>b\<bar>))"

text \<open>
  A \<open>double\<close> is the rational number it holds. The cast \<open>(int)\<close> of a \<open>double\<close>
  discards the fraction (C99 6.3.1.4); the values cast here stay far inside the range of
  \<open>int\<close>.
\<close>

definition truncate_toward_zero :: "rat \<Rightarrow> int" where
  "truncate_toward_zero x = (if 0 \<le> x then \<lfloor>x\<rfloor> else \<lceil>x\<rceil>)"

text \<open>The value an \<open>int\<close> holds after an arithmetic result is stored in it.\<close>

definition int32 :: "int \<Rightarrow> int" where
  "int32 x = signed_take_bit 31 x"

text \<open>The cast \<open>(short)\<close> of an \<open>int\<close>.\<close>

definition to_short :: "int \<Rightarrow> short" where
  "to_short x = word_of_int x"

text \<open>\<open>bytes[0] | (bytes[1] << 8)\<close> and its 32-bit sibling, as \<open>read_le16\<close> and
  \<open>read_le32\<close> assemble them; a \<open>short\<close> or \<open>int32_t\<close> read through a cast pointer on
  the little-endian host is the same combination.\<close>

definition le16 :: "byte \<Rightarrow> byte \<Rightarrow> 16 word" where
  "le16 b0 b1 = ucast b0 OR push_bit 8 (ucast b1)"

definition le32 :: "byte \<Rightarrow> byte \<Rightarrow> byte \<Rightarrow> byte \<Rightarrow> 32 word" where
  "le32 b0 b1 b2 b3 =
     ucast b0 OR push_bit 8 (ucast b1) OR push_bit 16 (ucast b2) OR push_bit 24 (ucast b3)"

text \<open>What stops the process instead of returning: an integer division by zero, a read
  outside a buffer, and the conversion of an infinite or NaN \<open>double\<close> (the quotient by a
  zero ratio) to an integer, which C leaves undefined.\<close>

datatype fault = Divide_by_zero | Out_of_bounds | Float_divide_by_zero

section \<open>The sample decoder: \<open>convert_to_16bit\<close>\<close>

text \<open>
  The addend of \<open>sum += ...\<close> in each of the four cases of the \<open>switch\<close>, for the channel
  value with index \<open>k = i * channels + ch\<close> of the raw block.
\<close>

definition chan8 :: "byte list \<Rightarrow> nat \<Rightarrow> int" where
  "chan8 input k = (uint (input ! k) - 128) * 256"

definition chan16 :: "byte list \<Rightarrow> nat \<Rightarrow> int" where
  "chan16 input k = sint (le16 (input ! (2 * k)) (input ! (2 * k + 1)))"

definition chan24 :: "byte list \<Rightarrow> nat \<Rightarrow> int" where
  "chan24 input k =
     (let base = k * 3;
          sample0 = (ucast (input ! base) OR push_bit 8 (ucast (input ! (base + 1)))
                      OR push_bit 16 (ucast (input ! (base + 2))) :: 32 word);
          sample = (if sample0 AND 0x800000 \<noteq> 0 then sample0 OR 0xFF000000 else sample0)
      in sint (signed_drop_bit 8 sample))"

definition chan32 :: "byte list \<Rightarrow> nat \<Rightarrow> int" where
  "chan32 input k =
     sint (signed_drop_bit 16
       (le32 (input ! (4 * k)) (input ! (4 * k + 1)) (input ! (4 * k + 2)) (input ! (4 * k + 3))))"

text \<open>
  The two nested \<open>for\<close> loops, which the four cases share word for word:
  \<open>for i < samples: sum = 0; for ch < channels: sum += chan; output[i] = (short)(sum / channels)\<close>.
  \<open>sum\<close> is an \<open>int\<close>.
\<close>

definition mix_frames :: "(nat \<Rightarrow> int) \<Rightarrow> int \<Rightarrow> int \<Rightarrow> short list" where
  "mix_frames chan samples channels =
     map (\<lambda>i. to_short
                 (c_div (fold (\<lambda>ch sum. int32 (sum + chan (i * nat channels + ch)))
                              [0..<nat channels] 0)
                        channels))
         [0..<nat samples]"

text \<open>
  \<open>convert_to_16bit(input, output, samples, input_bits, channels)\<close>, returning what it
  stores in \<open>output[0..samples)\<close>. The \<open>default\<close> case is the source's
  \<open>memset(output, 0, samples * sizeof(short))\<close>. A block shorter than the bytes the loops
  read, and \<open>sum / channels\<close> with no channel, stop the process.
\<close>

definition convert_to_16bit :: "byte list \<Rightarrow> int \<Rightarrow> int \<Rightarrow> int \<Rightarrow> fault + short list" where
  "convert_to_16bit input samples input_bits channels =
     (if input_bits = 8 \<or> input_bits = 16 \<or> input_bits = 24 \<or> input_bits = 32 then
        if length input < nat samples * nat channels * nat (input_bits div 8) then Inl Out_of_bounds
        else if channels = 0 \<and> 0 < samples then Inl Divide_by_zero
        else Inr (mix_frames
                    (if input_bits = 8 then chan8 input
                     else if input_bits = 16 then chan16 input
                     else if input_bits = 24 then chan24 input
                     else chan32 input)
                    samples channels)
      else Inr (replicate (nat samples) 0))"

text \<open>\<open>stereo_to_mono\<close>: \<open>mono[i] = (short)((stereo[i*2] + stereo[i*2+1]) / 2)\<close>.\<close>

definition stereo_to_mono :: "short list \<Rightarrow> int \<Rightarrow> short list" where
  "stereo_to_mono stereo samples =
     map (\<lambda>i. to_short (c_div (sint (stereo ! (i * 2)) + sint (stereo ! (i * 2 + 1))) 2))
         [0..<nat samples]"

text \<open>
  The downmix rule in the specification's words: the arithmetic mean of the channel
  values of a frame, the quotient truncated toward zero.
\<close>

definition channel_value :: "int \<Rightarrow> byte list \<Rightarrow> nat \<Rightarrow> int" where
  "channel_value bits input k =
     (if bits = 8 then chan8 input k
      else if bits = 16 then chan16 input k
      else if bits = 24 then chan24 input k
      else chan32 input k)"

definition frame_values :: "int \<Rightarrow> byte list \<Rightarrow> nat \<Rightarrow> nat \<Rightarrow> int list" where
  "frame_values bits input channels i =
     map (\<lambda>ch. channel_value bits input (i * channels + ch)) [0..<channels]"

definition downmix_mean :: "int list \<Rightarrow> int" where
  "downmix_mean vs = truncate_toward_zero (of_int (sum_list vs) / of_nat (length vs))"

section \<open>Properties of the sample decoder\<close>

lemma c_div_truncates:
  "b \<noteq> 0 \<Longrightarrow> c_div a b = truncate_toward_zero (of_int a / of_int b)"
proof -
  assume b: "b \<noteq> 0"
  have pos: "\<lfloor>(of_int x :: rat) / of_int y\<rfloor> = x div y" for x y :: int
    by (simp add: floor_divide_of_int_eq)
  have neg: "\<lceil>(of_int x :: rat) / of_int y\<rceil> = - ((- x) div y)" for x y :: int
    by (simp add: ceiling_def pos [of "- x" y, symmetric])
  show ?thesis
  proof (cases "(a < 0) = (b < 0)")
    case True
    then have q: "0 \<le> (of_int a :: rat) / of_int b"
      using b by (auto simp: zero_le_divide_iff)
    have "\<bar>a\<bar> div \<bar>b\<bar> = a div b"
      using True b by (cases "a < 0") (auto simp: abs_if)
    then show ?thesis
      using True q by (simp add: c_div_def truncate_toward_zero_def pos)
  next
    case False
    show ?thesis
    proof (cases "a = 0")
      case True
      then show ?thesis by (simp add: c_div_def truncate_toward_zero_def)
    next
      case nz: False
      then have q: "(of_int a :: rat) / of_int b < 0"
        using False b by (auto simp: divide_less_0_iff)
      have "\<bar>a\<bar> div \<bar>b\<bar> = (- a) div b"
        using False b by (cases "a < 0") (auto simp: abs_if div_minus_right)
      then show ?thesis
        using False q by (simp add: c_div_def truncate_toward_zero_def neg)
    qed
  qed
qed

lemma int32_id: "- 2147483648 \<le> x \<Longrightarrow> x < 2147483648 \<Longrightarrow> int32 x = x"
  unfolding int32_def by (rule signed_take_bit_int_eq_self) simp_all

lemma sint_to_short: "- 32768 \<le> x \<Longrightarrow> x \<le> 32767 \<Longrightarrow> sint (to_short x) = x"
  unfolding to_short_def by (simp add: sint_sbintrunc' signed_take_bit_int_eq_self)

lemma chan8_range: "- 32768 \<le> chan8 input k \<and> chan8 input k \<le> 32767"
proof -
  have "0 \<le> uint (input ! k)" "uint (input ! k) < 256"
    using uint_bounded [of "input ! k"] by simp_all
  then show ?thesis unfolding chan8_def by simp
qed

lemma chan16_range: "- 32768 \<le> chan16 input k \<and> chan16 input k \<le> 32767"
  unfolding chan16_def
  using sint_ge [of "le16 (input ! (2 * k)) (input ! (2 * k + 1))"]
        sint_lt [of "le16 (input ! (2 * k)) (input ! (2 * k + 1))"] by simp

lemma div_65536_range:
  assumes "- 2147483648 \<le> (x::int)" "x < 2147483648"
  shows "- 32768 \<le> x div 65536 \<and> x div 65536 \<le> 32767"
proof -
  have "x div 65536 \<le> 2147483647 div 65536"
    using assms by (intro zdiv_mono1) auto
  moreover have "(- 2147483648) div 65536 \<le> x div 65536"
    using assms by (intro zdiv_mono1) auto
  ultimately show ?thesis by simp
qed

lemma chan32_range: "- 32768 \<le> chan32 input k \<and> chan32 input k \<le> 32767"
  unfolding chan32_def sint_signed_drop_bit_eq drop_bit_eq_div
  using sint_ge [of "le32 (input ! (4 * k)) (input ! (4 * k + 1)) (input ! (4 * k + 2)) (input ! (4 * k + 3))"]
        sint_lt [of "le32 (input ! (4 * k)) (input ! (4 * k + 1)) (input ! (4 * k + 2)) (input ! (4 * k + 3))"]
        div_65536_range [of "sint (le32 (input ! (4 * k)) (input ! (4 * k + 1)) (input ! (4 * k + 2)) (input ! (4 * k + 3)))"]
  by simp

lemma byte_bit_less: "bit (b::byte) n \<Longrightarrow> n < 8"
  by (auto dest: bit_imp_le_length)

lemma sign_bit_24:
  "((ucast (b0::byte) OR push_bit 8 (ucast (b1::byte)) OR push_bit 16 (ucast (b2::byte)) :: 32 word)
      AND 0x800000 \<noteq> 0) = bit b2 7"
proof -
  have e: "(0x800000 :: 32 word) = push_bit 23 1" by simp
  show ?thesis
    apply (simp only: e bit_iff_and_push_bit_not_eq_0 [symmetric])
    using byte_bit_less [of b0 23] byte_bit_less [of b1 15] apply (auto simp add: bit_simps)
    done
qed

lemma sign_extend_24:
  "signed_drop_bit 8
     (let sample0 = (ucast (b0::byte) OR push_bit 8 (ucast (b1::byte)) OR push_bit 16 (ucast (b2::byte)) :: 32 word)
      in if sample0 AND 0x800000 \<noteq> 0 then sample0 OR 0xFF000000 else sample0)
   = scast (le16 b1 b2)"
proof -
  have m: "(0xFF000000 :: 32 word) = NOT (mask 24)"
    by (simp add: mask_eq_exp_minus_1)
  show ?thesis
    unfolding Let_def sign_bit_24 le16_def m
    apply (rule bit_word_eqI)
    apply (simp add: bit_simps split: if_splits)
    apply (intro conjI impI allI)
      apply (auto simp: min_def dest: byte_bit_less)
    subgoal for n by (cases "n = 15") auto
    subgoal for n using byte_bit_less [of b2 "n - 8"] by (cases "n = 15") auto
    done
qed

lemma chan24_range: "- 32768 \<le> chan24 input k \<and> chan24 input k \<le> 32767"
proof -
  let ?w = "le16 (input ! (k * 3 + 1)) (input ! (k * 3 + 2))"
  have "chan24 input k = sint (scast ?w :: 32 word)"
    unfolding chan24_def using sign_extend_24 [of "input ! (k * 3)" "input ! (k * 3 + 1)" "input ! (k * 3 + 2)"]
    by (simp add: Let_def)
  also have "\<dots> = sint ?w" by (simp add: sint_up_scast is_up)
  finally show ?thesis using sint_ge [of ?w] sint_lt [of ?w] by simp
qed


lemma channel_value_range:
  "- 32768 \<le> channel_value bits input k \<and> channel_value bits input k \<le> 32767"
  unfolding channel_value_def
  using chan8_range chan16_range chan24_range chan32_range by simp

lemma fold_int32_sum:
  assumes r: "\<And>k. - 32768 \<le> c k \<and> c k \<le> 32767"
  shows "n \<le> 65535 \<Longrightarrow>
     fold (\<lambda>ch sum. int32 (sum + c ch)) [0..<n] 0 = sum_list (map c [0..<n]) \<and>
     - 32768 * int n \<le> sum_list (map c [0..<n]) \<and> sum_list (map c [0..<n]) \<le> 32767 * int n"
proof (induction n)
  case 0
  then show ?case by simp
next
  case (Suc n)
  then have ih: "fold (\<lambda>ch sum. int32 (sum + c ch)) [0..<n] 0 = sum_list (map c [0..<n])"
    and lo: "- 32768 * int n \<le> sum_list (map c [0..<n])"
    and hi: "sum_list (map c [0..<n]) \<le> 32767 * int n"
    and n: "n < 65535" by simp_all
  from r [of n] have cn: "- 32768 \<le> c n" "c n \<le> 32767" by simp_all
  have "int32 (sum_list (map c [0..<n]) + c n) = sum_list (map c [0..<n]) + c n"
    using lo hi cn n by (intro int32_id) linarith+
  then show ?case using ih lo hi cn by simp
qed

lemma c_div_range:
  assumes "0 < n" "- 32768 * n \<le> s" "s \<le> 32767 * n"
  shows "- 32768 \<le> c_div s n \<and> c_div s n \<le> 32767"
proof (cases "s < 0")
  case True
  have "(- s) div n \<le> (32768 * n) div n"
    using assms by (intro zdiv_mono1) auto
  then have "(- s) div n \<le> 32768" using assms(1) by simp
  moreover have "0 \<le> (- s) div n" using True assms by (simp add: pos_imp_zdiv_nonneg_iff)
  ultimately show ?thesis using True assms by (simp add: c_div_def)
next
  case False
  have "s div n \<le> (32767 * n) div n"
    using assms by (intro zdiv_mono1) auto
  then have "s div n \<le> 32767" using assms(1) by simp
  moreover have "0 \<le> s div n" using False assms by (simp add: pos_imp_zdiv_nonneg_iff)
  ultimately show ?thesis using False assms by (simp add: c_div_def)
qed


lemma mix_frames_mean:
  assumes ch: "0 < channels" "channels \<le> 65535"
  shows "map sint (mix_frames (channel_value bits input) samples channels) =
     map (\<lambda>i. downmix_mean (frame_values bits input (nat channels) i)) [0..<nat samples]"
proof -
  have one: "sint (to_short (c_div (fold (\<lambda>ch sum. int32 (sum + channel_value bits input (i * nat channels + ch)))
                 [0..<nat channels] 0) channels))
      = downmix_mean (frame_values bits input (nat channels) i)" for i
  proof -
    let ?c = "\<lambda>ch. channel_value bits input (i * nat channels + ch)"
    have n: "nat channels \<le> 65535" using ch by simp
    have r: "\<And>k. - 32768 \<le> ?c k \<and> ?c k \<le> 32767"
      by (rule channel_value_range)
    from fold_int32_sum [of ?c "nat channels", OF r n]
    have f: "fold (\<lambda>ch sum. int32 (sum + ?c ch)) [0..<nat channels] 0 = sum_list (map ?c [0..<nat channels])"
      and lo: "- 32768 * channels \<le> sum_list (map ?c [0..<nat channels])"
      and hi: "sum_list (map ?c [0..<nat channels]) \<le> 32767 * channels"
      using ch by simp_all
    from c_div_range [OF ch(1) lo hi]
    have "sint (to_short (c_div (sum_list (map ?c [0..<nat channels])) channels))
        = c_div (sum_list (map ?c [0..<nat channels])) channels"
      by (intro sint_to_short) simp_all
    also have "\<dots> = truncate_toward_zero (of_int (sum_list (map ?c [0..<nat channels])) / of_int channels)"
      using ch by (intro c_div_truncates) simp
    also have "\<dots> = downmix_mean (frame_values bits input (nat channels) i)"
      using ch by (simp add: downmix_mean_def frame_values_def)
    finally show ?thesis using f by simp
  qed
  show ?thesis unfolding mix_frames_def by (simp add: one comp_def)
qed

lemma convert_supported:
  assumes "bits = 8 \<or> bits = 16 \<or> bits = 24 \<or> bits = 32"
    and "0 < channels"
    and "nat samples * nat channels * nat (bits div 8) \<le> length input"
  shows "convert_to_16bit input samples bits channels =
     Inr (mix_frames (channel_value bits input) samples channels)"
proof -
  have "(if bits = 8 then chan8 input else if bits = 16 then chan16 input
         else if bits = 24 then chan24 input else chan32 input) = channel_value bits input"
    by (rule ext) (simp add: channel_value_def)
  then show ?thesis using assms unfolding convert_to_16bit_def by auto
qed

text \<open>
  Claim C2, as amended. For every supported bit depth (8, 16, 24, 32) and every channel
  count from 1 to 65535 (the range of the \<open>uint16_t\<close> header field), each frame of a block
  that holds \<open>samples\<close> frames decodes to the arithmetic mean of its channel values, the
  quotient truncated toward zero: the \<open>int\<close> accumulator never wraps and the \<open>(short)\<close>
  cast never changes the quotient.
\<close>

theorem downmix_is_truncated_mean:
  assumes "bits = 8 \<or> bits = 16 \<or> bits = 24 \<or> bits = 32"
    and "0 < channels" and "channels \<le> 65535"
    and "nat samples * nat channels * nat (bits div 8) \<le> length input"
  shows "map_sum id (map sint) (convert_to_16bit input samples bits channels) =
     Inr (map (\<lambda>i. downmix_mean (frame_values bits input (nat channels) i)) [0..<nat samples])"
  using convert_supported [OF assms(1,2,4)] mix_frames_mean [OF assms(2,3)] by simp

text \<open>The stereo 16-bit frame \<open>(100, 300)\<close>, bytes \<open>64 00 2C 01\<close>, decodes to 200.\<close>

theorem downmix_is_truncated_mean_witness:
  "map_sum id (map sint) (convert_to_16bit [0x64, 0, 0x2C, 0x01] 1 16 2) = Inr [200]"
proof -
  have "map_sum id (map sint) (convert_to_16bit [0x64, 0, 0x2C, 0x01] 1 16 2) =
      Inr (map (\<lambda>i. downmix_mean (frame_values 16 [0x64, 0, 0x2C, 0x01] (nat 2) i)) [0..<nat 1])"
    by (rule downmix_is_truncated_mean) simp_all
  also have "\<dots> = Inr [200]" by code_simp
  finally show ?thesis .
qed

text \<open>
  Claim C2 as stated fails at its second vector: the stereo 16-bit frame \<open>(100, -101)\<close>,
  bytes \<open>64 00 9B FF\<close>, has the sum \<open>-1\<close>, and \<open>-1 / 2\<close> truncated toward zero is 0,
  not \<open>-1\<close>.
\<close>

theorem downmix_100_minus_101_counterexample:
  "convert_to_16bit [0x64, 0, 0x9B, 0xFF] 1 16 2 = Inr [0] \<and>
   convert_to_16bit [0x64, 0, 0x9B, 0xFF] 1 16 2 \<noteq> Inr [- 1]"
proof -
  have "convert_to_16bit [0x64, 0, 0x9B, 0xFF] 1 16 2 = Inr [0]" by code_simp
  then show ?thesis by simp
qed

text \<open>
  Claim C3, as amended. For every declared bit depth other than 8, 16, 24 and 32 the
  sample decoder signals nothing: it stores \<open>samples\<close> zero samples (silence) and returns
  normally.
\<close>

theorem unsupported_depth_is_silence:
  assumes "bits \<noteq> 8" and "bits \<noteq> 16" and "bits \<noteq> 24" and "bits \<noteq> 32"
  shows "convert_to_16bit input samples bits channels = Inr (replicate (nat samples) 0)"
  using assms by (simp add: convert_to_16bit_def)

theorem unsupported_depth_is_silence_witness:
  "convert_to_16bit [0xAB, 0xCD, 0xEF] 2 12 1 = Inr [0, 0]"
proof -
  have "convert_to_16bit [0xAB, 0xCD, 0xEF] 2 12 1 = Inr (replicate (nat 2) 0)"
    by (rule unsupported_depth_is_silence) simp_all
  then show ?thesis by (simp add: numeral_2_eq_2)
qed

text \<open>
  Claim C3 as stated fails: a 12-bit block is decoded without any failure signal.
\<close>

theorem unsupported_depth_counterexample:
  "\<not> isl (convert_to_16bit [0xAB, 0xCD, 0xEF] 2 12 1) \<and>
   projr (convert_to_16bit [0xAB, 0xCD, 0xEF] 2 12 1) = [0, 0]"
  by (simp add: convert_to_16bit_def numeral_2_eq_2)

section \<open>Files\<close>

text \<open>
  A \<open>FILE*\<close> is the file's bytes, the position and the end-of-file indicator. \<open>fread\<close> of
  \<open>n\<close> bytes delivers what is left up to \<open>n\<close>, advances by what it delivered and sets the
  indicator when it delivered less; \<open>fseek\<close> clears the indicator and may move past the
  end. Offsets are \<open>long\<close>, 64 bits on the host, so a \<open>uint32_t\<close> chunk size is a
  forward offset.
\<close>

record c_file =
  f_bytes :: "byte list"
  f_pos :: nat
  f_eof :: bool

definition fopen_rb :: "byte list \<Rightarrow> c_file" where
  "fopen_rb bs = \<lparr>f_bytes = bs, f_pos = 0, f_eof = False\<rparr>"

definition fread :: "nat \<Rightarrow> c_file \<Rightarrow> byte list \<times> c_file" where
  "fread n f =
     (let got = take n (drop (f_pos f) (f_bytes f))
      in (got, f\<lparr>f_pos := f_pos f + length got, f_eof := (f_eof f \<or> length got < n)\<rparr>))"

definition fseek_cur :: "nat \<Rightarrow> c_file \<Rightarrow> c_file" where
  "fseek_cur off f = f\<lparr>f_pos := f_pos f + off, f_eof := False\<rparr>"

definition fseek_set :: "nat \<Rightarrow> c_file \<Rightarrow> c_file" where
  "fseek_set off f = f\<lparr>f_pos := off, f_eof := False\<rparr>"

definition ftell :: "c_file \<Rightarrow> int" where
  "ftell f = int (f_pos f)"

text \<open>\<open>read_le32\<close> and \<open>read_le16\<close>: zero when fewer bytes were left.\<close>

definition read_le32 :: "c_file \<Rightarrow> uint32 \<times> c_file" where
  "read_le32 f =
     (let (bytes, f') = fread 4 f
      in (if length bytes \<noteq> 4 then 0 else le32 (bytes ! 0) (bytes ! 1) (bytes ! 2) (bytes ! 3), f'))"

definition read_le16 :: "c_file \<Rightarrow> uint16 \<times> c_file" where
  "read_le16 f =
     (let (bytes, f') = fread 2 f
      in (if length bytes \<noteq> 2 then 0 else le16 (bytes ! 0) (bytes ! 1), f'))"

section \<open>The enhanced container reader: \<open>wav_enhanced_open_read\<close>\<close>

definition FOURCC_RIFF :: uint32 where "FOURCC_RIFF = 0x46464952"
definition FOURCC_WAVE :: uint32 where "FOURCC_WAVE = 0x45564157"
definition FOURCC_FMT :: uint32 where "FOURCC_FMT = 0x20746D66"
definition FOURCC_DATA :: uint32 where "FOURCC_DATA = 0x61746164"

text \<open>
  \<open>wav_enhanced_t\<close>. The \<open>double\<close> fields hold the exact value of the binary64 number.
  The scratch buffer \<open>resample_buffer\<close> is overwritten by every read before it is used;
  only its size is kept.
\<close>

record wav_enhanced =
  file_ptr :: "c_file option"
  original_sample_rate :: uint32
  original_channels :: uint16
  original_bits_per_sample :: uint16
  original_format :: uint16
  target_sample_rate :: uint32
  target_channels :: uint16
  target_bits_per_sample :: uint16
  total_samples :: uint32
  samples_read :: uint32
  samples_written :: uint32
  data_start_pos :: int
  data_size :: uint32
  resample_ratio :: rat
  resample_phase :: rat
  resample_buffer_size :: int
  bytes_written :: uint32

text \<open>The struct after \<open>memset(wav, 0, sizeof(wav_enhanced_t))\<close>.\<close>

definition zeroed_wav :: wav_enhanced where
  "zeroed_wav = \<lparr>file_ptr = None, original_sample_rate = 0, original_channels = 0,
     original_bits_per_sample = 0, original_format = 0, target_sample_rate = 0,
     target_channels = 0, target_bits_per_sample = 0, total_samples = 0, samples_read = 0,
     samples_written = 0, data_start_pos = 0, data_size = 0, resample_ratio = 0,
     resample_phase = 0, resample_buffer_size = 0, bytes_written = 0\<rparr>"

text \<open>
  The chunk loop \<open>while (!feof(file) && (!found_fmt || !found_data))\<close> of
  \<open>wav_enhanced_open_read\<close>, on the struct, the stream and the two flags. The data
  branch ends the loop by \<open>break\<close>; its division
  \<open>chunk_size / (channels * bits_per_sample / 8)\<close> stops the process when the divisor is 0.
\<close>

function parse_chunks ::
  "wav_enhanced \<Rightarrow> c_file \<Rightarrow> bool \<Rightarrow> bool \<Rightarrow> fault + (wav_enhanced \<times> c_file \<times> bool \<times> bool)" where
  "parse_chunks wav f found_fmt found_data =
     (if f_eof f \<or> (found_fmt \<and> found_data) then Inr (wav, f, found_fmt, found_data)
      else
        let (chunk_id, f1) = read_le32 f;
            (chunk_size, f2) = read_le32 f1
        in if chunk_id = FOURCC_FMT then
             let (fmt_tag, f3) = read_le16 f2;
                 (channels, f4) = read_le16 f3;
                 (sample_rate, f5) = read_le32 f4;
                 (byte_rate, f6) = read_le32 f5;
                 (block_align, f7) = read_le16 f6;
                 (bits, f8) = read_le16 f7
             in parse_chunks
                  (wav\<lparr>original_format := fmt_tag, original_channels := channels,
                       original_sample_rate := sample_rate, original_bits_per_sample := bits\<rparr>)
                  (if 16 < chunk_size then fseek_cur (unat chunk_size - 16) f8 else f8)
                  True found_data
           else if chunk_id = FOURCC_DATA then
             (let frame_bytes = uint (original_channels wav) * uint (original_bits_per_sample wav) div 8
              in if frame_bytes = 0 then Inl Divide_by_zero
                 else Inr (wav\<lparr>data_start_pos := ftell f2, data_size := chunk_size,
                               total_samples := word_of_int (uint chunk_size div frame_bytes)\<rparr>,
                           f2, found_fmt, True))
           else parse_chunks wav (if 0 < chunk_size then fseek_cur (unat chunk_size) f2 else f2)
                  found_fmt found_data)"
  by pat_completeness auto

text \<open>Termination: every turn of the loop consumes bytes or raises the end-of-file indicator.\<close>

definition at_end :: "c_file \<Rightarrow> bool" where
  "at_end f = (f_eof f \<and> length (f_bytes f) \<le> f_pos f)"

lemma fread_same: "fread n f = (got, f') \<Longrightarrow> f_bytes f' = f_bytes f \<and> f_pos f \<le> f_pos f'"
  by (auto simp: fread_def Let_def)

lemma fread_at_end: "fread n f = (got, f') \<Longrightarrow> at_end f \<Longrightarrow> at_end f' \<and> got = []"
  by (auto simp: fread_def Let_def at_end_def)

lemma fread_step:
  "fread n f = (got, f') \<Longrightarrow> \<not> f_eof f \<Longrightarrow> 0 < n \<Longrightarrow>
     (at_end f' \<and> length got < n) \<or>
     (\<not> f_eof f' \<and> length got = n \<and> f_pos f' = f_pos f + n \<and> f_pos f' \<le> length (f_bytes f))"
  by (auto simp: fread_def Let_def at_end_def)

lemma read_le32_same: "read_le32 f = (v, f') \<Longrightarrow> f_bytes f' = f_bytes f \<and> f_pos f \<le> f_pos f'"
  by (auto simp: read_le32_def split: prod.splits dest: fread_same)

lemma read_le32_at_end: "read_le32 f = (v, f') \<Longrightarrow> at_end f \<Longrightarrow> at_end f' \<and> v = 0"
  by (auto simp: read_le32_def split: prod.splits dest: fread_at_end)

lemma read_le32_step:
  "read_le32 f = (v, f') \<Longrightarrow> \<not> f_eof f \<Longrightarrow>
     (at_end f' \<and> v = 0) \<or>
     (\<not> f_eof f' \<and> f_pos f' = f_pos f + 4 \<and> f_pos f' \<le> length (f_bytes f))"
  by (auto simp: read_le32_def split: prod.splits if_splits dest: fread_step)

lemma read_le16_same: "read_le16 f = (v, f') \<Longrightarrow> f_bytes f' = f_bytes f \<and> f_pos f \<le> f_pos f'"
  by (auto simp: read_le16_def split: prod.splits dest: fread_same)

lemma read_le16_at_end: "read_le16 f = (v, f') \<Longrightarrow> at_end f \<Longrightarrow> at_end f' \<and> v = 0"
  by (auto simp: read_le16_def split: prod.splits dest: fread_at_end)


lemma read_le16_step:
  "read_le16 f = (v, f') \<Longrightarrow> \<not> f_eof f \<Longrightarrow>
     (at_end f' \<and> v = 0) \<or>
     (\<not> f_eof f' \<and> f_pos f' = f_pos f + 2 \<and> f_pos f' \<le> length (f_bytes f))"
  by (auto simp: read_le16_def split: prod.splits if_splits dest: fread_step)

lemma read_le16_eof: "read_le16 f = (v, f') \<Longrightarrow> f_eof f \<Longrightarrow> f_eof f'"
  by (auto simp: read_le16_def fread_def Let_def split: prod.splits)

lemma read_le32_eof: "read_le32 f = (v, f') \<Longrightarrow> f_eof f \<Longrightarrow> f_eof f'"
  by (auto simp: read_le32_def fread_def Let_def split: prod.splits)

definition scan_measure :: "c_file \<Rightarrow> nat" where
  "scan_measure f = 2 * (length (f_bytes f) - f_pos f) + (if f_eof f then 0 else 1)"

lemma chunk_header_step:
  assumes "read_le32 f = (chunk_id, f1)" "read_le32 f1 = (chunk_size, f2)" "\<not> f_eof f"
  shows "f_bytes f2 = f_bytes f \<and>
     ((at_end f2 \<and> chunk_size = 0) \<or>
      (\<not> f_eof f2 \<and> f_pos f2 = f_pos f + 8 \<and> f_pos f2 \<le> length (f_bytes f)))"
proof -
  have b: "f_bytes f1 = f_bytes f" "f_bytes f2 = f_bytes f1"
    using assms read_le32_same by blast+
  from read_le32_step [OF assms(1,3)] show ?thesis
  proof
    assume "at_end f1 \<and> chunk_id = 0"
    then show ?thesis using read_le32_at_end [OF assms(2)] b by simp
  next
    assume a: "\<not> f_eof f1 \<and> f_pos f1 = f_pos f + 4 \<and> f_pos f1 \<le> length (f_bytes f)"
    then show ?thesis using read_le32_step [OF assms(2)] b by auto
  qed
qed

lemma fmt_fields_step:
  assumes "read_le16 f2 = (a, f3)" "read_le16 f3 = (b, f4)" "read_le32 f4 = (c, f5)"
    "read_le32 f5 = (d, f6)" "read_le16 f6 = (e, f7)" "read_le16 f7 = (g, f8)"
  shows "f_bytes f8 = f_bytes f2 \<and> f_pos f2 \<le> f_pos f8 \<and> (at_end f2 \<longrightarrow> at_end f8)"
proof -
  have "f_bytes f3 = f_bytes f2 \<and> f_pos f2 \<le> f_pos f3 \<and> (at_end f2 \<longrightarrow> at_end f3)"
    using assms(1) read_le16_same read_le16_at_end by blast
  moreover have "f_bytes f4 = f_bytes f3 \<and> f_pos f3 \<le> f_pos f4 \<and> (at_end f3 \<longrightarrow> at_end f4)"
    using assms(2) read_le16_same read_le16_at_end by blast
  moreover have "f_bytes f5 = f_bytes f4 \<and> f_pos f4 \<le> f_pos f5 \<and> (at_end f4 \<longrightarrow> at_end f5)"
    using assms(3) read_le32_same read_le32_at_end by blast
  moreover have "f_bytes f6 = f_bytes f5 \<and> f_pos f5 \<le> f_pos f6 \<and> (at_end f5 \<longrightarrow> at_end f6)"
    using assms(4) read_le32_same read_le32_at_end by blast
  moreover have "f_bytes f7 = f_bytes f6 \<and> f_pos f6 \<le> f_pos f7 \<and> (at_end f6 \<longrightarrow> at_end f7)"
    using assms(5) read_le16_same read_le16_at_end by blast
  moreover have "f_bytes f8 = f_bytes f7 \<and> f_pos f7 \<le> f_pos f8 \<and> (at_end f7 \<longrightarrow> at_end f8)"
    using assms(6) read_le16_same read_le16_at_end by blast
  ultimately show ?thesis by auto
qed

lemma scan_measure_skip:
  assumes "f_bytes g = f_bytes f" "\<not> f_eof f"
    "(at_end g \<and> chunk_size = 0) \<or> (f_pos f + 8 \<le> f_pos g \<and> f_pos f + 8 \<le> length (f_bytes f))"
  shows "scan_measure (if n < (chunk_size::uint32) then fseek_cur k g else g) < scan_measure f"
  using assms by (auto simp: scan_measure_def at_end_def fseek_cur_def word_less_nat_alt)

termination parse_chunks
proof (relation "measure (\<lambda>(wav, f, found_fmt, found_data). scan_measure f)", goal_cases)
  case 1
  then show ?case by simp
next
  case (2 wav f found_fmt found_data x chunk_id f1 y chunk_size f2 x3 fmt_tag f3 x4 channels f4
      x5 sample_rate f5 x6 byte_rate f6 x7 block_align f7 x8 bits f8)
  then have h: "read_le32 f = (chunk_id, f1)" "read_le32 f1 = (chunk_size, f2)" "\<not> f_eof f"
    by auto
  from 2 have r: "read_le16 f2 = (fmt_tag, f3)" "read_le16 f3 = (channels, f4)"
    "read_le32 f4 = (sample_rate, f5)" "read_le32 f5 = (byte_rate, f6)"
    "read_le16 f6 = (block_align, f7)" "read_le16 f7 = (bits, f8)" by auto
  from chunk_header_step [OF h] fmt_fields_step [OF r]
  have "scan_measure (if 16 < chunk_size then fseek_cur (unat chunk_size - 16) f8 else f8) < scan_measure f"
    using h(3) by (intro scan_measure_skip) auto
  then show ?case by simp
next
  case (3 wav f found_fmt found_data x chunk_id f1 y chunk_size f2)
  then have h: "read_le32 f = (chunk_id, f1)" "read_le32 f1 = (chunk_size, f2)" "\<not> f_eof f"
    by auto
  from chunk_header_step [OF h]
  have "scan_measure (if 0 < chunk_size then fseek_cur (unat chunk_size) f2 else f2) < scan_measure f"
    using h(3) by (intro scan_measure_skip) auto
  then show ?case by simp
qed

text \<open>
  \<open>wav_enhanced_open_read\<close> returns \<open>NULL\<close> after one of four messages, or stops in the
  division of the data branch, or returns the stream. Its argument is the content of the
  named file, \<open>None\<close> when \<open>fopen\<close> fails; \<open>rnd\<close> is the rounding of an exact quotient,
  sum or product to binary64, which every \<open>double\<close> operation of the source applies to
  its result. Allocation is taken to succeed.
\<close>

datatype open_failure = Cannot_open | Not_RIFF | Not_WAVE | Missing_fmt_or_data | Crashed fault

definition wav_enhanced_open_read ::
  "(rat \<Rightarrow> rat) \<Rightarrow> byte list option \<Rightarrow> open_failure + wav_enhanced" where
  "wav_enhanced_open_read rnd filename =
     (case filename of
        None \<Rightarrow> Inl Cannot_open
      | Some contents \<Rightarrow>
          let (riff_id, f1) = read_le32 (fopen_rb contents)
          in if riff_id \<noteq> FOURCC_RIFF then Inl Not_RIFF
             else
               let (file_size, f2) = read_le32 f1;
                   (wave_id, f3) = read_le32 f2
               in if wave_id \<noteq> FOURCC_WAVE then Inl Not_WAVE
                  else
                    case parse_chunks zeroed_wav f3 False False of
                      Inl t \<Rightarrow> Inl (Crashed t)
                    | Inr (wav, f, found_fmt, found_data) \<Rightarrow>
                        if found_fmt \<and> found_data then
                          Inr (wav\<lparr>file_ptr := Some f,
                                   target_sample_rate := 8000,
                                   target_channels := 1,
                                   target_bits_per_sample := 16,
                                   resample_ratio :=
                                     rnd (of_int (uint (original_sample_rate wav)) / 8000),
                                   resample_phase := 0,
                                   resample_buffer_size := 4096\<rparr>)
                        else Inl Missing_fmt_or_data)"

text \<open>The specification's \<open>origin_format\<close> and \<open>data_region\<close> of a stream, the bytes a
  stream has not read yet, and an unknown chunk as the scanner meets it: a tag that is
  neither \<open>fmt\<close> nor \<open>data\<close>, the size, and as many bytes as the size declares.\<close>

definition origin_format :: "wav_enhanced \<Rightarrow> uint16 \<times> uint16 \<times> uint32 \<times> uint16" where
  "origin_format wav =
     (original_format wav, original_channels wav, original_sample_rate wav,
      original_bits_per_sample wav)"

definition data_region :: "wav_enhanced \<Rightarrow> int \<times> uint32" where
  "data_region wav = (data_start_pos wav, data_size wav)"

definition unread :: "c_file \<Rightarrow> byte list" where
  "unread f = drop (f_pos f) (f_bytes f)"

definition unknown_chunk :: "byte list \<Rightarrow> bool" where
  "unknown_chunk c =
     (8 \<le> length c \<and>
      le32 (c ! 0) (c ! 1) (c ! 2) (c ! 3) \<noteq> FOURCC_FMT \<and>
      le32 (c ! 0) (c ! 1) (c ! 2) (c ! 3) \<noteq> FOURCC_DATA \<and>
      length c = 8 + unat (le32 (c ! 4) (c ! 5) (c ! 6) (c ! 7)))"

section \<open>The streaming resampler and the frame reader\<close>

text \<open>
  The body of the interpolation loop of \<open>resample_to_8khz\<close>: the source position
  \<open>wav->resample_phase + i * ratio\<close> and the value
  \<open>sample1 + frac * (sample2 - sample1)\<close> that is cast to \<open>short\<close>.
\<close>

definition src_position :: "(rat \<Rightarrow> rat) \<Rightarrow> rat \<Rightarrow> rat \<Rightarrow> nat \<Rightarrow> rat" where
  "src_position rnd phase ratio i = rnd (phase + rnd (of_nat i * ratio))"

definition interpolate :: "(rat \<Rightarrow> rat) \<Rightarrow> short list \<Rightarrow> rat \<Rightarrow> rat" where
  "interpolate rnd input src_pos =
     (let src_idx = truncate_toward_zero src_pos;
          frac = rnd (src_pos - of_int src_idx);
          sample1 = sint (input ! nat src_idx);
          sample2 = (if src_idx + 1 < int (length input) then sint (input ! nat (src_idx + 1))
                     else sample1)
      in rnd (of_int sample1 + rnd (frac * of_int (sample2 - sample1))))"

text \<open>
  The loop \<open>for (i = 0; i < max_output_samples && output_count < max_output_samples; i++)\<close>
  with its \<open>break\<close>; \<open>output\<close> holds the \<open>output_count\<close> samples stored so far. A
  negative index would read before the buffer.
\<close>

function resample_loop ::
  "(rat \<Rightarrow> rat) \<Rightarrow> rat \<Rightarrow> rat \<Rightarrow> short list \<Rightarrow> int \<Rightarrow> nat \<Rightarrow> short list \<Rightarrow> fault + short list" where
  "resample_loop rnd phase ratio input max_output_samples i output =
     (if int i < max_output_samples \<and> int (length output) < max_output_samples then
        let src_pos = src_position rnd phase ratio i;
            src_idx = truncate_toward_zero src_pos
        in if int (length input) - 1 \<le> src_idx then Inr output
           else if src_idx < 0 then Inl Out_of_bounds
           else resample_loop rnd phase ratio input max_output_samples (i + 1)
                  (output @ [to_short (truncate_toward_zero (interpolate rnd input src_pos))])
      else Inr output)"
  by pat_completeness auto
termination
  by (relation "measure (\<lambda>(rnd, phase, ratio, input, max_output_samples, i, output).
        nat max_output_samples - i)") auto

text \<open>
  \<open>resample_to_8khz(wav, input, input_samples, output, max_output_samples)\<close>, with \<open>input\<close>
  the \<open>input_samples\<close> converted samples; it returns the count, the samples stored and the
  stream with its new phase.
\<close>

definition resample_to_8khz ::
  "(rat \<Rightarrow> rat) \<Rightarrow> wav_enhanced \<Rightarrow> short list \<Rightarrow> int \<Rightarrow> fault + (int \<times> short list \<times> wav_enhanced)" where
  "resample_to_8khz rnd wav input max_output_samples =
     (if original_sample_rate wav = 8000 then
        let input_samples = int (length input);
            samples_to_copy =
              (if input_samples < max_output_samples then input_samples else max_output_samples)
        in Inr (samples_to_copy, take (nat samples_to_copy) input, wav)
      else
        let ratio = rnd (of_int (uint (original_sample_rate wav)) / 8000)
        in case resample_loop rnd (resample_phase wav) ratio input max_output_samples 0 [] of
             Inl t \<Rightarrow> Inl t
           | Inr output \<Rightarrow>
               let output_count = int (length output);
                   phase1 = rnd (resample_phase wav + rnd (of_int output_count * ratio));
                   phase2 = rnd (phase1 - of_int (truncate_toward_zero phase1))
               in Inr (output_count, output, wav\<lparr>resample_phase := phase2\<rparr>))"

text \<open>
  \<open>wav_enhanced_read_samples_16bit_mono_8khz(wav, samples, num_samples)\<close>. A \<open>NULL\<close>
  pointer is \<open>None\<close>; the caller's buffer comes back with the samples stored at its
  start. The result is the returned \<open>int\<close>, the buffer and the stream.
\<close>

definition wav_enhanced_read_samples_16bit_mono_8khz ::
  "(rat \<Rightarrow> rat) \<Rightarrow> wav_enhanced option \<Rightarrow> short list option \<Rightarrow> uint32 \<Rightarrow>
     fault + (int \<times> short list option \<times> wav_enhanced option)" where
  "wav_enhanced_read_samples_16bit_mono_8khz rnd wav samples num_samples =
     (case wav of
        None \<Rightarrow> Inr (- 1, samples, wav)
      | Some w \<Rightarrow>
         (case file_ptr w of
            None \<Rightarrow> Inr (- 1, samples, wav)
          | Some f \<Rightarrow>
             (case samples of
                None \<Rightarrow> Inr (- 1, samples, wav)
              | Some buf \<Rightarrow>
                 let bytes_per_sample = uint (original_bits_per_sample w) div 8;
                     channels = uint (original_channels w);
                     wanted = truncate_toward_zero
                                (rnd (of_int (uint num_samples) * resample_ratio w)) + 2;
                     samples_to_read =
                       (if resample_buffer_size w < wanted then resample_buffer_size w else wanted);
                     (raw_buffer, f') =
                       fread (nat (samples_to_read * channels * bytes_per_sample)) f;
                     w' = w\<lparr>file_ptr := Some f'\<rparr>
                 in if channels * bytes_per_sample = 0 then Inl Divide_by_zero
                    else
                      let actual_samples_read =
                            int (length raw_buffer) div (channels * bytes_per_sample)
                      in if actual_samples_read \<le> 0 then Inr (0, samples, Some w')
                         else
                           case convert_to_16bit raw_buffer actual_samples_read
                                  (uint (original_bits_per_sample w)) channels of
                             Inl t \<Rightarrow> Inl t
                           | Inr mono_samples \<Rightarrow>
                              (case resample_to_8khz rnd w' mono_samples (sint num_samples) of
                                 Inl t \<Rightarrow> Inl t
                               | Inr (output_samples, output, w'') \<Rightarrow>
                                   Inr (output_samples,
                                        Some (output @ drop (length output) buf),
                                        Some (w''\<lparr>samples_read :=
                                                 samples_read w'' + word_of_int output_samples\<rparr>))))))"

section \<open>The container writer\<close>

text \<open>\<open>fwrite\<close> stores the bytes at the position, over what is there and beyond the end; the
  device is taken to accept every byte.\<close>

definition fwrite :: "byte list \<Rightarrow> c_file \<Rightarrow> c_file" where
  "fwrite bs f =
     (if bs = [] then f
      else f\<lparr>f_bytes := take (f_pos f) (f_bytes f @ replicate (f_pos f - length (f_bytes f)) 0)
                            @ bs @ drop (f_pos f + length bs) (f_bytes f),
             f_pos := f_pos f + length bs\<rparr>)"

text \<open>The byte arrays of \<open>write_le32\<close> and \<open>write_le16\<close>:
  \<open>{value & 0xFF, (value >> 8) & 0xFF, ...}\<close>.\<close>

definition le32_bytes :: "uint32 \<Rightarrow> byte list" where
  "le32_bytes v =
     [ucast (v AND 0xFF), ucast (drop_bit 8 v AND 0xFF),
      ucast (drop_bit 16 v AND 0xFF), ucast (drop_bit 24 v AND 0xFF)]"

definition le16_bytes :: "uint16 \<Rightarrow> byte list" where
  "le16_bytes v = [ucast (v AND 0xFF), ucast (drop_bit 8 v AND 0xFF)]"

definition write_le32 :: "uint32 \<Rightarrow> c_file \<Rightarrow> c_file" where
  "write_le32 v f = fwrite (le32_bytes v) f"

definition write_le16 :: "uint16 \<Rightarrow> c_file \<Rightarrow> c_file" where
  "write_le16 v f = fwrite (le16_bytes v) f"

definition ascii :: "string \<Rightarrow> byte list" where
  "ascii s = map of_char s"

definition WAV_FORMAT_PCM :: uint16 where "WAV_FORMAT_PCM = 1"

definition wav_enhanced_open_write :: "bool \<Rightarrow> wav_enhanced option" where
  "wav_enhanced_open_write can_create =
     (if \<not> can_create then None
      else
        let wav = zeroed_wav\<lparr>target_sample_rate := 8000, target_channels := 1,
                             target_bits_per_sample := 16\<rparr>;
            f0 = \<lparr>f_bytes = [], f_pos = 0, f_eof = False\<rparr>;
            f1 = fwrite (ascii ''RIFF'') f0;
            f2 = write_le32 36 f1;
            f3 = fwrite (ascii ''WAVE'') f2;
            f4 = fwrite (ascii ''fmt '') f3;
            f5 = write_le32 16 f4;
            f6 = write_le16 WAV_FORMAT_PCM f5;
            f7 = write_le16 (target_channels wav) f6;
            f8 = write_le32 (target_sample_rate wav) f7;
            f9 = write_le32 (target_sample_rate wav * ucast (target_channels wav)
                               * ucast (target_bits_per_sample wav) div 8) f8;
            f10 = write_le16 (word_of_int (uint (target_channels wav)
                               * uint (target_bits_per_sample wav) div 8)) f9;
            f11 = write_le16 (target_bits_per_sample wav) f10;
            f12 = fwrite (ascii ''data'') f11;
            f13 = write_le32 0 f12
        in Some (wav\<lparr>file_ptr := Some f13\<rparr>))"

text \<open>A \<open>short\<close> as \<open>fwrite(samples, sizeof(short), ...)\<close> stores it on the host.\<close>

definition short_bytes :: "short \<Rightarrow> byte list" where
  "short_bytes s = [ucast s, ucast (drop_bit 8 s)]"

text \<open>
  \<open>wav_enhanced_write_samples(wav, samples, num_samples)\<close>: the returned \<open>int\<close> and the
  stream. The buffer holds at least \<open>num_samples\<close> samples. The source names the count
  that \<open>fwrite\<close> returns \<open>bytes_written\<close>.
\<close>

definition wav_enhanced_write_samples ::
  "wav_enhanced option \<Rightarrow> short list option \<Rightarrow> uint32 \<Rightarrow> int \<times> wav_enhanced option" where
  "wav_enhanced_write_samples wav samples num_samples =
     (case wav of
        None \<Rightarrow> (- 1, wav)
      | Some w \<Rightarrow>
         (case file_ptr w of
            None \<Rightarrow> (- 1, wav)
          | Some f \<Rightarrow>
             (case samples of
                None \<Rightarrow> (- 1, wav)
              | Some buf \<Rightarrow>
                 let items = take (unat num_samples) buf;
                     bytes_written_now = length items
                 in (int bytes_written_now,
                     Some (w\<lparr>file_ptr := Some (fwrite (concat (map short_bytes items)) f),
                             samples_written := samples_written w + of_nat bytes_written_now,
                             bytes_written := bytes_written w + of_nat bytes_written_now * 2\<rparr>)))))"

text \<open>\<open>wav_enhanced_close(wav)\<close>: the file as \<open>fclose\<close> leaves it.\<close>

definition wav_enhanced_close :: "wav_enhanced option \<Rightarrow> c_file option" where
  "wav_enhanced_close wav =
     (case wav of
        None \<Rightarrow> None
      | Some w \<Rightarrow>
         (case file_ptr w of
            None \<Rightarrow> None
          | Some f \<Rightarrow>
              Some (if 0 < samples_written w then
                      let data_size = bytes_written w;
                          file_size = 36 + data_size;
                          f1 = write_le32 file_size (fseek_set 4 f);
                          f2 = write_le32 data_size (fseek_set 40 f1)
                      in f2
                    else f)))"

section \<open>The info functions\<close>

text \<open>
  In \<open>wav_enhanced_get_total_samples_8khz_mono\<close> the quotient
  \<open>wav->total_samples / wav->resample_ratio\<close> by a zero ratio is infinite or NaN, and its
  conversion to \<open>uint32_t\<close> is undefined.
\<close>

definition wav_enhanced_get_original_sample_rate :: "wav_enhanced option \<Rightarrow> uint32" where
  "wav_enhanced_get_original_sample_rate wav =
     (case wav of None \<Rightarrow> 0 | Some w \<Rightarrow> original_sample_rate w)"

definition wav_enhanced_get_original_channels :: "wav_enhanced option \<Rightarrow> uint16" where
  "wav_enhanced_get_original_channels wav =
     (case wav of None \<Rightarrow> 0 | Some w \<Rightarrow> original_channels w)"

definition wav_enhanced_get_original_bits_per_sample :: "wav_enhanced option \<Rightarrow> uint16" where
  "wav_enhanced_get_original_bits_per_sample wav =
     (case wav of None \<Rightarrow> 0 | Some w \<Rightarrow> original_bits_per_sample w)"

definition wav_enhanced_get_total_samples_8khz_mono ::
  "(rat \<Rightarrow> rat) \<Rightarrow> wav_enhanced option \<Rightarrow> fault + uint32" where
  "wav_enhanced_get_total_samples_8khz_mono rnd wav =
     (case wav of
        None \<Rightarrow> Inr 0
      | Some w \<Rightarrow>
          if resample_ratio w = 0 then Inl Float_divide_by_zero
          else Inr (word_of_int (truncate_toward_zero
                      (rnd (of_int (uint (total_samples w)) / resample_ratio w)))))"

section \<open>Properties of the chunk scanner\<close>

declare parse_chunks.simps [simp del]

lemma read_le32_full:
  assumes "4 \<le> length (unread f)"
  shows "read_le32 f =
     (le32 (unread f ! 0) (unread f ! 1) (unread f ! 2) (unread f ! 3), f\<lparr>f_pos := f_pos f + 4\<rparr>)"
  using assms by (simp add: read_le32_def fread_def unread_def Let_def)

lemma unread_advance: "unread (f\<lparr>f_pos := f_pos f + k\<rparr>) = drop k (unread f)"
  by (simp add: unread_def add.commute)

lemma skip_unknown_chunk:
  assumes c: "unknown_chunk c" and u: "unread f = c @ rest"
    and e: "\<not> f_eof f" and nf: "\<not> (found_fmt \<and> found_data)"
  shows "parse_chunks wav f found_fmt found_data =
     parse_chunks wav (f\<lparr>f_pos := f_pos f + length c\<rparr>) found_fmt found_data"
proof -
  let ?id = "le32 (c ! 0) (c ! 1) (c ! 2) (c ! 3)"
  let ?size = "le32 (c ! 4) (c ! 5) (c ! 6) (c ! 7)"
  let ?f1 = "f\<lparr>f_pos := f_pos f + 4\<rparr>"
  let ?f2 = "f\<lparr>f_pos := f_pos f + 8\<rparr>"
  from c have len: "8 \<le> length c" and id: "?id \<noteq> FOURCC_FMT" "?id \<noteq> FOURCC_DATA"
    and sz: "length c = 8 + unat ?size" by (simp_all add: unknown_chunk_def)
  have r1: "read_le32 f = (?id, ?f1)"
    using read_le32_full [of f] u len by (auto simp: nth_append)
  have "unread ?f1 = drop 4 c @ rest" using u len by (simp add: unread_advance)
  then have r2: "read_le32 ?f1 = (?size, ?f2)"
    using read_le32_full [of ?f1] len by (auto simp: nth_append)
  have k: "(if 0 < ?size then fseek_cur (unat ?size) ?f2 else ?f2) = f\<lparr>f_pos := f_pos f + length c\<rparr>"
    using sz e by (auto simp: fseek_cur_def word_greater_zero_iff unat_eq_zero)
  show ?thesis
    using id by (subst parse_chunks.simps) (simp add: e nf r1 r2 k del: parse_chunks.simps)
qed


lemma skip_unknown_chunks:
  assumes "list_all unknown_chunk cs" and "unread f = concat cs @ rest"
    and "\<not> f_eof f" and "\<not> (found_fmt \<and> found_data)"
  shows "parse_chunks wav f found_fmt found_data =
     parse_chunks wav (f\<lparr>f_pos := f_pos f + length (concat cs)\<rparr>) found_fmt found_data"
  using assms
proof (induction cs arbitrary: f)
  case Nil
  then show ?case by simp
next
  case (Cons c cs)
  let ?f = "f\<lparr>f_pos := f_pos f + length c\<rparr>"
  have u: "unread f = c @ (concat cs @ rest)" using Cons.prems(2) by simp
  have "parse_chunks wav f found_fmt found_data = parse_chunks wav ?f found_fmt found_data"
    using Cons.prems by (intro skip_unknown_chunk [OF _ u]) simp_all
  also have "\<dots> = parse_chunks wav (?f\<lparr>f_pos := f_pos ?f + length (concat cs)\<rparr>) found_fmt found_data"
    using Cons.prems u by (intro Cons.IH) (simp_all add: unread_advance)
  finally show ?case by (simp add: add.assoc)
qed


lemma parse_chunks_exit:
  "f_eof f \<or> (found_fmt \<and> found_data) \<Longrightarrow>
   parse_chunks wav f found_fmt found_data = Inr (wav, f, found_fmt, found_data)"
  by (simp add: parse_chunks.simps [of wav f])

lemma parse_chunks_fmt:
  assumes "\<not> (f_eof f \<or> (found_fmt \<and> found_data))"
    and "read_le32 f = (FOURCC_FMT, f1)" "read_le32 f1 = (chunk_size, f2)"
    and "read_le16 f2 = (fmt_tag, f3)" "read_le16 f3 = (channels, f4)"
    and "read_le32 f4 = (sample_rate, f5)" "read_le32 f5 = (byte_rate, f6)"
    and "read_le16 f6 = (block_align, f7)" "read_le16 f7 = (bits, f8)"
  shows "parse_chunks wav f found_fmt found_data =
     parse_chunks
       (wav\<lparr>original_format := fmt_tag, original_channels := channels,
            original_sample_rate := sample_rate, original_bits_per_sample := bits\<rparr>)
       (if 16 < chunk_size then fseek_cur (unat chunk_size - 16) f8 else f8) True found_data"
  using assms by (auto simp add: parse_chunks.simps [of wav f])

lemma parse_chunks_data:
  assumes "\<not> (f_eof f \<or> (found_fmt \<and> found_data))"
    and "read_le32 f = (FOURCC_DATA, f1)" "read_le32 f1 = (chunk_size, f2)"
  shows "parse_chunks wav f found_fmt found_data =
     (if uint (original_channels wav) * uint (original_bits_per_sample wav) div 8 = 0
      then Inl Divide_by_zero
      else Inr (wav\<lparr>data_start_pos := ftell f2, data_size := chunk_size,
                    total_samples := word_of_int (uint chunk_size div
                      (uint (original_channels wav) * uint (original_bits_per_sample wav) div 8))\<rparr>,
                f2, found_fmt, True))"
  using assms by (auto simp add: parse_chunks.simps [of wav f] Let_def FOURCC_DATA_def FOURCC_FMT_def)

lemma parse_chunks_other:
  assumes "\<not> (f_eof f \<or> (found_fmt \<and> found_data))"
    and "read_le32 f = (chunk_id, f1)" "read_le32 f1 = (chunk_size, f2)"
    and "chunk_id \<noteq> FOURCC_FMT" "chunk_id \<noteq> FOURCC_DATA"
  shows "parse_chunks wav f found_fmt found_data =
     parse_chunks wav (if 0 < chunk_size then fseek_cur (unat chunk_size) f2 else f2)
       found_fmt found_data"
  using assms by (auto simp add: parse_chunks.simps [of wav f])

lemma parse_chunks_induct [case_names exit fmt data other]:
  assumes exit: "\<And>(wav::wav_enhanced) f found_fmt found_data.
      f_eof f \<or> (found_fmt \<and> found_data) \<Longrightarrow> P wav f found_fmt found_data"
    and fmt: "\<And>(wav::wav_enhanced) f found_fmt found_data f1 chunk_size f2 fmt_tag f3 channels f4 sample_rate f5
        byte_rate f6 block_align f7 bits f8.
      \<not> (f_eof f \<or> (found_fmt \<and> found_data)) \<Longrightarrow>
      read_le32 f = (FOURCC_FMT, f1) \<Longrightarrow> read_le32 f1 = (chunk_size, f2) \<Longrightarrow>
      read_le16 f2 = (fmt_tag, f3) \<Longrightarrow> read_le16 f3 = (channels, f4) \<Longrightarrow>
      read_le32 f4 = (sample_rate, f5) \<Longrightarrow> read_le32 f5 = (byte_rate, f6) \<Longrightarrow>
      read_le16 f6 = (block_align, f7) \<Longrightarrow> read_le16 f7 = (bits, f8) \<Longrightarrow>
      P (wav\<lparr>original_format := fmt_tag, original_channels := channels,
             original_sample_rate := sample_rate, original_bits_per_sample := bits\<rparr>)
        (if 16 < chunk_size then fseek_cur (unat chunk_size - 16) f8 else f8) True found_data \<Longrightarrow>
      P wav f found_fmt found_data"
    and data: "\<And>(wav::wav_enhanced) f found_fmt found_data f1 chunk_size f2.
      \<not> (f_eof f \<or> (found_fmt \<and> found_data)) \<Longrightarrow>
      read_le32 f = (FOURCC_DATA, f1) \<Longrightarrow> read_le32 f1 = (chunk_size, f2) \<Longrightarrow>
      P wav f found_fmt found_data"
    and other: "\<And>(wav::wav_enhanced) f found_fmt found_data chunk_id f1 chunk_size f2.
      \<not> (f_eof f \<or> (found_fmt \<and> found_data)) \<Longrightarrow>
      read_le32 f = (chunk_id, f1) \<Longrightarrow> read_le32 f1 = (chunk_size, f2) \<Longrightarrow>
      chunk_id \<noteq> FOURCC_FMT \<Longrightarrow> chunk_id \<noteq> FOURCC_DATA \<Longrightarrow>
      P wav (if 0 < chunk_size then fseek_cur (unat chunk_size) f2 else f2) found_fmt found_data \<Longrightarrow>
      P wav f found_fmt found_data"
  shows "P (wav::wav_enhanced) f found_fmt found_data"
proof (induction wav f found_fmt found_data rule: parse_chunks.induct)
  case (1 wav f found_fmt found_data)
  show ?case
  proof (cases "f_eof f \<or> (found_fmt \<and> found_data)")
    case True
    then show ?thesis by (rule exit)
  next
    case False
    obtain chunk_id f1 where r1: "read_le32 f = (chunk_id, f1)" by (cases "read_le32 f")
    obtain chunk_size f2 where r2: "read_le32 f1 = (chunk_size, f2)" by (cases "read_le32 f1")
    show ?thesis
    proof (cases "chunk_id = FOURCC_FMT")
      case is_fmt: True
      obtain fmt_tag f3 where r3: "read_le16 f2 = (fmt_tag, f3)" by (cases "read_le16 f2")
      obtain channels f4 where r4: "read_le16 f3 = (channels, f4)" by (cases "read_le16 f3")
      obtain sample_rate f5 where r5: "read_le32 f4 = (sample_rate, f5)" by (cases "read_le32 f4")
      obtain byte_rate f6 where r6: "read_le32 f5 = (byte_rate, f6)" by (cases "read_le32 f5")
      obtain block_align f7 where r7: "read_le16 f6 = (block_align, f7)" by (cases "read_le16 f6")
      obtain bits f8 where r8: "read_le16 f7 = (bits, f8)" by (cases "read_le16 f7")
      show ?thesis
        using False r1 [unfolded is_fmt] r2 r3 r4 r5 r6 r7 r8
      proof (rule fmt)
        show "P (wav\<lparr>original_format := fmt_tag, original_channels := channels,
             original_sample_rate := sample_rate, original_bits_per_sample := bits\<rparr>)
          (if 16 < chunk_size then fseek_cur (unat chunk_size - 16) f8 else f8) True found_data"
          by (rule "1.IH"(1) [OF False refl r1 [symmetric] refl r2 [symmetric] is_fmt
                refl r3 [symmetric] refl r4 [symmetric] refl r5 [symmetric] refl r6 [symmetric]
                refl r7 [symmetric] refl r8 [symmetric]])
      qed
    next
      case not_fmt: False
      show ?thesis
      proof (cases "chunk_id = FOURCC_DATA")
        case is_data: True
        show ?thesis using False r1 [unfolded is_data] r2 by (rule data)
      next
        case not_data: False
        show ?thesis
          using False r1 r2 not_fmt not_data
        proof (rule other)
          show "P wav (if 0 < chunk_size then fseek_cur (unat chunk_size) f2 else f2) found_fmt found_data"
            by (rule "1.IH"(2) [OF False refl r1 [symmetric] refl r2 [symmetric] not_fmt not_data])
        qed
      qed
    qed
  qed
qed

lemma parse_chunks_data_pos:
  "parse_chunks wav f found_fmt found_data = Inr (w', f', a', b') \<Longrightarrow> \<not> found_data \<Longrightarrow> b' \<Longrightarrow>
     ftell f' = data_start_pos w'"
proof (induction wav f found_fmt found_data rule: parse_chunks_induct)
  case (exit wav f found_fmt found_data)
  then show ?case by (simp add: parse_chunks_exit)
next
  case (fmt wav f found_fmt found_data f1 chunk_size f2 fmt_tag f3 channels f4 sample_rate f5
      byte_rate f6 block_align f7 bits f8)
  from fmt.prems(1) show ?case
    unfolding parse_chunks_fmt [OF fmt.hyps] using fmt.IH fmt.prems(2,3) by simp
next
  case (data wav f found_fmt found_data f1 chunk_size f2)
  from data.prems show ?case
    unfolding parse_chunks_data [OF data.hyps] by (auto split: if_splits)
next
  case (other wav f found_fmt found_data chunk_id f1 chunk_size f2)
  from other.prems(1) show ?case
    unfolding parse_chunks_other [OF other.hyps] using other.IH other.prems(2,3) by simp
qed


text \<open>Two streams that differ only by bytes already behind the position.\<close>

definition same_stream :: "nat \<Rightarrow> c_file \<Rightarrow> c_file \<Rightarrow> bool" where
  "same_stream L f g = (unread g = unread f \<and> f_pos g = f_pos f + L \<and> f_eof g = f_eof f)"

definition shifted ::
  "nat \<Rightarrow> wav_enhanced \<times> c_file \<times> bool \<times> bool \<Rightarrow> wav_enhanced \<times> c_file \<times> bool \<times> bool \<Rightarrow> bool" where
  "shifted L r r' =
     (case (r, r') of
        ((w, f, a, b), (w', g, a', b')) \<Rightarrow>
          a' = a \<and> b' = b \<and> same_stream L f g \<and>
          w' = (if b then w\<lparr>data_start_pos := data_start_pos w + int L\<rparr> else w))"

lemma same_stream_moved:
  assumes "same_stream L f g"
  shows "same_stream L (f\<lparr>f_pos := f_pos f + k, f_eof := e\<rparr>) (g\<lparr>f_pos := f_pos g + k, f_eof := e\<rparr>)"
proof -
  have u: "drop (f_pos g) (f_bytes g) = drop (f_pos f) (f_bytes f)"
    using assms unfolding same_stream_def unread_def by blast
  have "drop (f_pos g + k) (f_bytes g) = drop k (drop (f_pos g) (f_bytes g))"
    by (simp add: add.commute)
  also have "\<dots> = drop k (drop (f_pos f) (f_bytes f))"
    by (simp only: u)
  also have "\<dots> = drop (f_pos f + k) (f_bytes f)"
    by (simp add: add.commute)
  finally have d: "drop (f_pos g + k) (f_bytes g) = drop (f_pos f + k) (f_bytes f)" .
  show ?thesis
    unfolding same_stream_def unread_def
  proof (intro conjI)
    show "drop (f_pos (g\<lparr>f_pos := f_pos g + k, f_eof := e\<rparr>)) (f_bytes (g\<lparr>f_pos := f_pos g + k, f_eof := e\<rparr>)) =
        drop (f_pos (f\<lparr>f_pos := f_pos f + k, f_eof := e\<rparr>)) (f_bytes (f\<lparr>f_pos := f_pos f + k, f_eof := e\<rparr>))"
      using d by simp
    show "f_pos (g\<lparr>f_pos := f_pos g + k, f_eof := e\<rparr>) = f_pos (f\<lparr>f_pos := f_pos f + k, f_eof := e\<rparr>) + L"
      using assms by (simp add: same_stream_def)
    show "f_eof (g\<lparr>f_pos := f_pos g + k, f_eof := e\<rparr>) = f_eof (f\<lparr>f_pos := f_pos f + k, f_eof := e\<rparr>)"
      by simp
  qed
qed

lemma fread_shift:
  assumes "same_stream L f g" "fread n f = (got, f')"
  shows "\<exists>g'. fread n g = (got, g') \<and> same_stream L f' g'"
proof -
  have u: "unread g = unread f" and p: "f_pos g = f_pos f + L" and e: "f_eof g = f_eof f"
    using assms(1) by (simp_all add: same_stream_def)
  have got: "got = take n (unread f)" and f': "f' = f\<lparr>f_pos := f_pos f + length got, f_eof := (f_eof f \<or> length got < n)\<rparr>"
    using assms(2) by (auto simp: fread_def Let_def unread_def)
  let ?g' = "g\<lparr>f_pos := f_pos g + length got, f_eof := (f_eof g \<or> length got < n)\<rparr>"
  have "fread n g = (got, ?g')"
    using got u by (simp add: fread_def Let_def unread_def)
  moreover have "same_stream L f' ?g'"
    unfolding f' e by (rule same_stream_moved [OF assms(1)])
  ultimately show ?thesis by blast
qed

lemma read_le32_shift:
  assumes "same_stream L f g" "read_le32 f = (v, f')"
  shows "\<exists>g'. read_le32 g = (v, g') \<and> same_stream L f' g'"
proof -
  obtain got where r: "fread 4 f = (got, f')"
    using assms(2) by (auto simp: read_le32_def split: prod.splits)
  from fread_shift [OF assms(1) r] obtain g' where "fread 4 g = (got, g')" "same_stream L f' g'"
    by blast
  then show ?thesis using assms(2) r by (auto simp: read_le32_def)
qed

lemma read_le16_shift:
  assumes "same_stream L f g" "read_le16 f = (v, f')"
  shows "\<exists>g'. read_le16 g = (v, g') \<and> same_stream L f' g'"
proof -
  obtain got where r: "fread 2 f = (got, f')"
    using assms(2) by (auto simp: read_le16_def split: prod.splits)
  from fread_shift [OF assms(1) r] obtain g' where "fread 2 g = (got, g')" "same_stream L f' g'"
    by blast
  then show ?thesis using assms(2) r by (auto simp: read_le16_def)
qed

lemma skip_shift:
  assumes "same_stream L f g"
  shows "same_stream L (if c then fseek_cur k f else f) (if c then fseek_cur k g else g)"
  using assms same_stream_moved [OF assms, where k = k and e = False] by (simp add: fseek_cur_def)

lemma parse_chunks_shift:
  "same_stream L f g \<Longrightarrow> \<not> found_data \<Longrightarrow>
   rel_sum (=) (shifted L) (parse_chunks wav f found_fmt found_data)
                           (parse_chunks wav g found_fmt found_data)"
proof (induction wav f found_fmt found_data arbitrary: g rule: parse_chunks_induct)
  case (exit wav f found_fmt found_data)
  then have "f_eof g \<or> (found_fmt \<and> found_data)" by (simp add: same_stream_def)
  then show ?case using exit by (simp add: parse_chunks_exit shifted_def)
next
  case (fmt wav f found_fmt found_data f1 chunk_size f2 fmt_tag f3 channels f4 sample_rate f5
      byte_rate f6 block_align f7 bits f8)
  note ss = \<open>same_stream L f g\<close>
  have c: "\<not> (f_eof g \<or> (found_fmt \<and> found_data))"
    using fmt.hyps(1) ss by (simp add: same_stream_def)
  from read_le32_shift [OF ss fmt.hyps(2)] obtain g1
    where g1: "read_le32 g = (FOURCC_FMT, g1)" "same_stream L f1 g1" by blast
  from read_le32_shift [OF g1(2) fmt.hyps(3)] obtain g2
    where g2: "read_le32 g1 = (chunk_size, g2)" "same_stream L f2 g2" by blast
  from read_le16_shift [OF g2(2) fmt.hyps(4)] obtain g3
    where g3: "read_le16 g2 = (fmt_tag, g3)" "same_stream L f3 g3" by blast
  from read_le16_shift [OF g3(2) fmt.hyps(5)] obtain g4
    where g4: "read_le16 g3 = (channels, g4)" "same_stream L f4 g4" by blast
  from read_le32_shift [OF g4(2) fmt.hyps(6)] obtain g5
    where g5: "read_le32 g4 = (sample_rate, g5)" "same_stream L f5 g5" by blast
  from read_le32_shift [OF g5(2) fmt.hyps(7)] obtain g6
    where g6: "read_le32 g5 = (byte_rate, g6)" "same_stream L f6 g6" by blast
  from read_le16_shift [OF g6(2) fmt.hyps(8)] obtain g7
    where g7: "read_le16 g6 = (block_align, g7)" "same_stream L f7 g7" by blast
  from read_le16_shift [OF g7(2) fmt.hyps(9)] obtain g8
    where g8: "read_le16 g7 = (bits, g8)" "same_stream L f8 g8" by blast
  show ?case
    unfolding parse_chunks_fmt [OF fmt.hyps]
      parse_chunks_fmt [OF c g1(1) g2(1) g3(1) g4(1) g5(1) g6(1) g7(1) g8(1)]
    by (rule fmt.IH [OF skip_shift [OF g8(2)] fmt.prems(2)])
next
  case (data wav f found_fmt found_data f1 chunk_size f2)
  note ss = \<open>same_stream L f g\<close>
  have c: "\<not> (f_eof g \<or> (found_fmt \<and> found_data))"
    using data.hyps(1) ss by (simp add: same_stream_def)
  from read_le32_shift [OF ss data.hyps(2)] obtain g1
    where g1: "read_le32 g = (FOURCC_DATA, g1)" "same_stream L f1 g1" by blast
  from read_le32_shift [OF g1(2) data.hyps(3)] obtain g2
    where g2: "read_le32 g1 = (chunk_size, g2)" "same_stream L f2 g2" by blast
  have "ftell g2 = ftell f2 + int L" using g2(2) by (simp add: same_stream_def ftell_def)
  then show ?case
    unfolding parse_chunks_data [OF data.hyps] parse_chunks_data [OF c g1(1) g2(1)]
    using g2(2) by (simp add: shifted_def)
next
  case (other wav f found_fmt found_data chunk_id f1 chunk_size f2)
  note ss = \<open>same_stream L f g\<close>
  have c: "\<not> (f_eof g \<or> (found_fmt \<and> found_data))"
    using other.hyps(1) ss by (simp add: same_stream_def)
  from read_le32_shift [OF ss other.hyps(2)] obtain g1
    where g1: "read_le32 g = (chunk_id, g1)" "same_stream L f1 g1" by blast
  from read_le32_shift [OF g1(2) other.hyps(3)] obtain g2
    where g2: "read_le32 g1 = (chunk_size, g2)" "same_stream L f2 g2" by blast
  show ?case
    unfolding parse_chunks_other [OF other.hyps]
      parse_chunks_other [OF c g1(1) g2(1) other.hyps(4,5)]
    by (rule other.IH [OF skip_shift [OF g2(2)] other.prems(2)])
qed


lemma open_read_after_header:
  assumes "length hdr = 12"
  shows "wav_enhanced_open_read rnd (Some (hdr @ x)) =
     (if le32 (hdr ! 0) (hdr ! 1) (hdr ! 2) (hdr ! 3) \<noteq> FOURCC_RIFF then Inl Not_RIFF
      else if le32 (hdr ! 8) (hdr ! 9) (hdr ! 10) (hdr ! 11) \<noteq> FOURCC_WAVE then Inl Not_WAVE
      else
        case parse_chunks zeroed_wav \<lparr>f_bytes = hdr @ x, f_pos = 12, f_eof = False\<rparr> False False of
          Inl t \<Rightarrow> Inl (Crashed t)
        | Inr (wav, f, found_fmt, found_data) \<Rightarrow>
            if found_fmt \<and> found_data then
              Inr (wav\<lparr>file_ptr := Some f, target_sample_rate := 8000, target_channels := 1,
                       target_bits_per_sample := 16,
                       resample_ratio := rnd (of_int (uint (original_sample_rate wav)) / 8000),
                       resample_phase := 0, resample_buffer_size := 4096\<rparr>)
            else Inl Missing_fmt_or_data)"
proof -
  let ?f0 = "fopen_rb (hdr @ x)"
  let ?f1 = "?f0\<lparr>f_pos := 4\<rparr>"
  let ?f2 = "?f0\<lparr>f_pos := 8\<rparr>"
  let ?f3 = "\<lparr>f_bytes = hdr @ x, f_pos = 12, f_eof = False\<rparr>"
  have r1: "read_le32 ?f0 = (le32 (hdr ! 0) (hdr ! 1) (hdr ! 2) (hdr ! 3), ?f1)"
    using read_le32_full [of ?f0] assms by (simp add: unread_def fopen_rb_def nth_append)
  have r2: "read_le32 ?f1 = (le32 (hdr ! 4) (hdr ! 5) (hdr ! 6) (hdr ! 7), ?f2)"
    using read_le32_full [of ?f1] assms by (simp add: unread_def fopen_rb_def nth_append)
  have r3: "read_le32 ?f2 = (le32 (hdr ! 8) (hdr ! 9) (hdr ! 10) (hdr ! 11), ?f3)"
    using read_le32_full [of ?f2] assms by (simp add: unread_def fopen_rb_def nth_append)
  show ?thesis
    unfolding wav_enhanced_open_read_def by (simp add: r1 r2 r3)
qed

lemma chunk_skip_strong:
  assumes hdr: "length hdr = 12" and cs: "list_all unknown_chunk cs"
    and ok: "wav_enhanced_open_read rnd (Some (hdr @ rest)) = Inr w"
  shows "\<exists>f g. file_ptr w = Some f \<and> ftell f = data_start_pos w \<and> unread g = unread f \<and>
     ftell g = ftell f + int (length (concat cs)) \<and>
     wav_enhanced_open_read rnd (Some (hdr @ concat cs @ rest)) =
       Inr (w\<lparr>data_start_pos := data_start_pos w + int (length (concat cs)), file_ptr := Some g\<rparr>)"
proof -
  let ?L = "length (concat cs)"
  let ?F = "\<lparr>f_bytes = hdr @ rest, f_pos = 12, f_eof = False\<rparr>"
  let ?G = "\<lparr>f_bytes = hdr @ concat cs @ rest, f_pos = 12, f_eof = False\<rparr>"
  let ?G' = "?G\<lparr>f_pos := f_pos ?G + ?L\<rparr>"
  from ok obtain w0 f where
    pf: "parse_chunks zeroed_wav ?F False False = Inr (w0, f, True, True)"
    and w: "w = w0\<lparr>file_ptr := Some f, target_sample_rate := 8000, target_channels := 1,
                   target_bits_per_sample := 16,
                   resample_ratio := rnd (of_int (uint (original_sample_rate w0)) / 8000),
                   resample_phase := 0, resample_buffer_size := 4096\<rparr>"
    and magic: "le32 (hdr ! 0) (hdr ! 1) (hdr ! 2) (hdr ! 3) = FOURCC_RIFF"
      "le32 (hdr ! 8) (hdr ! 9) (hdr ! 10) (hdr ! 11) = FOURCC_WAVE"
    unfolding open_read_after_header [OF hdr]
    by (auto split: if_splits sum.splits)
  have "unread ?G = concat cs @ rest" using hdr by (simp add: unread_def)
  then have skip: "parse_chunks zeroed_wav ?G False False = parse_chunks zeroed_wav ?G' False False"
    using cs by (intro skip_unknown_chunks) simp_all
  have "same_stream ?L ?F ?G'" using hdr by (simp add: same_stream_def unread_def)
  from parse_chunks_shift [OF this, of False zeroed_wav False]
  have "rel_sum (=) (shifted ?L) (Inr (w0, f, True, True)) (parse_chunks zeroed_wav ?G' False False)"
    by (simp add: pf)
  then obtain g where
    pg: "parse_chunks zeroed_wav ?G' False False =
           Inr (w0\<lparr>data_start_pos := data_start_pos w0 + int ?L\<rparr>, g, True, True)"
    and ss: "same_stream ?L f g"
    by (cases "parse_chunks zeroed_wav ?G' False False") (auto simp: shifted_def)
  have pos: "ftell f = data_start_pos w0"
    using parse_chunks_data_pos [OF pf] by simp
  have "wav_enhanced_open_read rnd (Some (hdr @ concat cs @ rest)) =
      Inr (w\<lparr>data_start_pos := data_start_pos w + int ?L, file_ptr := Some g\<rparr>)"
    unfolding open_read_after_header [OF hdr] skip pg using magic by (simp add: w)
  moreover have "file_ptr w = Some f" "ftell f = data_start_pos w" using w pos by simp_all
  moreover have "unread g = unread f" "ftell g = ftell f + int ?L"
    using ss by (simp_all add: same_stream_def ftell_def)
  ultimately show ?thesis by blast
qed

section \<open>Canonical containers\<close>

text \<open>
  \<open>write_wav_header(f, sample_rate, channels, bits_per_sample, data_size)\<close> of
  \<open>create_test_wav.c\<close>: the 44 bytes of the packed \<open>wav_header_t\<close>.
\<close>

definition write_wav_header :: "uint32 \<Rightarrow> uint16 \<Rightarrow> uint16 \<Rightarrow> uint32 \<Rightarrow> byte list" where
  "write_wav_header sample_rate channels bits_per_sample data_bytes =
     ascii ''RIFF'' @ le32_bytes (36 + data_bytes) @ ascii ''WAVE'' @
     ascii ''fmt '' @ le32_bytes 16 @ le16_bytes 1 @ le16_bytes channels @
     le32_bytes sample_rate @
     le32_bytes (sample_rate * ucast channels * ucast bits_per_sample div 8) @
     le16_bytes (word_of_int (uint channels * uint bits_per_sample div 8)) @
     le16_bytes bits_per_sample @
     ascii ''data'' @ le32_bytes data_bytes"


lemma ucast_and_ff32: "(ucast ((w::32 word) AND 0xFF) :: byte) = ucast w"
proof -
  have m: "(0xFF::32 word) = mask 8" by (simp add: mask_eq_exp_minus_1)
  show ?thesis unfolding m by (rule bit_word_eqI) (auto simp: bit_simps)
qed

lemma ucast_and_ff16: "(ucast ((w::16 word) AND 0xFF) :: byte) = ucast w"
proof -
  have m: "(0xFF::16 word) = mask 8" by (simp add: mask_eq_exp_minus_1)
  show ?thesis unfolding m by (rule bit_word_eqI) (auto simp: bit_simps)
qed

lemma le32_le32_bytes: "le32_bytes v = [b0, b1, b2, b3] \<Longrightarrow> le32 b0 b1 b2 b3 = v"
  unfolding le32_bytes_def le32_def ucast_and_ff32
  apply (rule bit_word_eqI)
  apply (auto simp: bit_simps)
  subgoal for n by (cases "24 \<le> n") auto
  done

lemma le16_le16_bytes: "le16_bytes v = [b0, b1] \<Longrightarrow> le16 b0 b1 = v"
  unfolding le16_bytes_def le16_def ucast_and_ff16
  apply (rule bit_word_eqI)
  apply (auto simp: bit_simps)
  done

lemma read_le32_bytes:
  assumes "unread f = le32_bytes v @ rest"
  shows "read_le32 f = (v, f\<lparr>f_pos := f_pos f + 4\<rparr>) \<and> unread (f\<lparr>f_pos := f_pos f + 4\<rparr>) = rest"
proof -
  obtain b0 b1 b2 b3 where b: "le32_bytes v = [b0, b1, b2, b3]" by (simp add: le32_bytes_def)
  have "read_le32 f = (le32 b0 b1 b2 b3, f\<lparr>f_pos := f_pos f + 4\<rparr>)"
    using read_le32_full [of f] assms b by simp
  moreover have "unread (f\<lparr>f_pos := f_pos f + 4\<rparr>) = rest"
    using assms b by (simp add: unread_advance)
  ultimately show ?thesis using le32_le32_bytes [OF b] by simp
qed


lemma read_le16_full:
  assumes "2 \<le> length (unread f)"
  shows "read_le16 f = (le16 (unread f ! 0) (unread f ! 1), f\<lparr>f_pos := f_pos f + 2\<rparr>)"
  using assms by (simp add: read_le16_def fread_def unread_def Let_def)

lemma read_le16_bytes:
  assumes "unread f = le16_bytes v @ rest"
  shows "read_le16 f = (v, f\<lparr>f_pos := f_pos f + 2\<rparr>) \<and> unread (f\<lparr>f_pos := f_pos f + 2\<rparr>) = rest"
proof -
  obtain b0 b1 where b: "le16_bytes v = [b0, b1]" by (simp add: le16_bytes_def)
  have "read_le16 f = (le16 b0 b1, f\<lparr>f_pos := f_pos f + 2\<rparr>)"
    using read_le16_full [of f] assms b by simp
  moreover have "unread (f\<lparr>f_pos := f_pos f + 2\<rparr>) = rest"
    using assms b unread_advance [of f 2] by simp
  ultimately show ?thesis using le16_le16_bytes [OF b] by simp
qed

lemma fourcc_bytes:
  "ascii ''RIFF'' = le32_bytes FOURCC_RIFF" "ascii ''WAVE'' = le32_bytes FOURCC_WAVE"
  "ascii ''fmt '' = le32_bytes FOURCC_FMT" "ascii ''data'' = le32_bytes FOURCC_DATA"
  by code_simp+

lemma open_read_canonical:
  assumes nz: "uint channels * uint bits div 8 \<noteq> 0"
  shows "wav_enhanced_open_read rnd (Some (write_wav_header rate channels bits n @ payload)) =
     Inr (zeroed_wav\<lparr>
       file_ptr := Some \<lparr>f_bytes = write_wav_header rate channels bits n @ payload,
                         f_pos = 44, f_eof = False\<rparr>,
       original_sample_rate := rate, original_channels := channels,
       original_bits_per_sample := bits, original_format := 1,
       target_sample_rate := 8000, target_channels := 1, target_bits_per_sample := 16,
       total_samples := word_of_int (uint n div (uint channels * uint bits div 8)),
       data_start_pos := 44, data_size := n,
       resample_ratio := rnd (of_int (uint rate) / 8000), resample_phase := 0,
       resample_buffer_size := 4096\<rparr>)"
proof -
  let ?B = "write_wav_header rate channels bits n @ payload"
  let ?f = "\<lambda>k. \<lparr>f_bytes = ?B, f_pos = k, f_eof = False\<rparr>"
  let ?byte_rate = "rate * ucast channels * ucast bits div 8"
  let ?block_align = "word_of_int (uint channels * uint bits div 8) :: uint16"
  let ?t12 = "le32_bytes n @ payload"
  let ?t11 = "le32_bytes FOURCC_DATA @ ?t12"
  let ?t10 = "le16_bytes bits @ ?t11"
  let ?t9 = "le16_bytes ?block_align @ ?t10"
  let ?t8 = "le32_bytes ?byte_rate @ ?t9"
  let ?t7 = "le32_bytes rate @ ?t8"
  let ?t6 = "le16_bytes channels @ ?t7"
  let ?t5 = "le16_bytes 1 @ ?t6"
  let ?t4 = "le32_bytes 16 @ ?t5"
  let ?t3 = "le32_bytes FOURCC_FMT @ ?t4"
  let ?t2 = "le32_bytes FOURCC_WAVE @ ?t3"
  let ?t1 = "le32_bytes (36 + n) @ ?t2"
  have u0: "unread (?f 0) = le32_bytes FOURCC_RIFF @ ?t1"
    by (simp add: unread_def write_wav_header_def fourcc_bytes)
  have s1: "read_le32 (?f 0) = (FOURCC_RIFF, ?f 4) \<and> unread (?f 4) = ?t1"
    using read_le32_bytes [OF u0] by simp
  have s2: "read_le32 (?f 4) = (36 + n, ?f 8) \<and> unread (?f 8) = ?t2"
    using read_le32_bytes [of "?f 4" "36 + n" ?t2] s1 by simp
  have s3: "read_le32 (?f 8) = (FOURCC_WAVE, ?f 12) \<and> unread (?f 12) = ?t3"
    using read_le32_bytes [of "?f 8" FOURCC_WAVE ?t3] s2 by simp
  have s4: "read_le32 (?f 12) = (FOURCC_FMT, ?f 16) \<and> unread (?f 16) = ?t4"
    using read_le32_bytes [of "?f 12" FOURCC_FMT ?t4] s3 by simp
  have s5: "read_le32 (?f 16) = (16, ?f 20) \<and> unread (?f 20) = ?t5"
    using read_le32_bytes [of "?f 16" 16 ?t5] s4 by simp
  have s6: "read_le16 (?f 20) = (1, ?f 22) \<and> unread (?f 22) = ?t6"
    using read_le16_bytes [of "?f 20" 1 ?t6] s5 by simp
  have s7: "read_le16 (?f 22) = (channels, ?f 24) \<and> unread (?f 24) = ?t7"
    using read_le16_bytes [of "?f 22" channels ?t7] s6 by simp
  have s8: "read_le32 (?f 24) = (rate, ?f 28) \<and> unread (?f 28) = ?t8"
    using read_le32_bytes [of "?f 24" rate ?t8] s7 by simp
  have s9: "read_le32 (?f 28) = (?byte_rate, ?f 32) \<and> unread (?f 32) = ?t9"
    using read_le32_bytes [of "?f 28" ?byte_rate ?t9] s8 by simp
  have s10: "read_le16 (?f 32) = (?block_align, ?f 34) \<and> unread (?f 34) = ?t10"
    using read_le16_bytes [of "?f 32" ?block_align ?t10] s9 by simp
  have s11: "read_le16 (?f 34) = (bits, ?f 36) \<and> unread (?f 36) = ?t11"
    using read_le16_bytes [of "?f 34" bits ?t11] s10 by simp
  have s12: "read_le32 (?f 36) = (FOURCC_DATA, ?f 40) \<and> unread (?f 40) = ?t12"
    using read_le32_bytes [of "?f 36" FOURCC_DATA ?t12] s11 by simp
  have s13: "read_le32 (?f 40) = (n, ?f 44)"
    using read_le32_bytes [of "?f 40" n payload] s12 by simp
  let ?w = "zeroed_wav\<lparr>original_format := 1, original_channels := channels,
              original_sample_rate := rate, original_bits_per_sample := bits\<rparr>"
  have p1: "parse_chunks zeroed_wav (?f 12) False False = parse_chunks ?w (?f 36) True False"
    using parse_chunks_fmt [of "?f 12" False False "?f 16" 16 "?f 20" 1 "?f 22" channels "?f 24"
        rate "?f 28" ?byte_rate "?f 32" ?block_align "?f 34" bits "?f 36" zeroed_wav]
      s4 s5 s6 s7 s8 s9 s10 s11 by simp
  have p2: "parse_chunks ?w (?f 36) True False =
      Inr (?w\<lparr>data_start_pos := ftell (?f 44), data_size := n,
                total_samples := word_of_int (uint n div (uint channels * uint bits div 8))\<rparr>,
           ?f 44, True, True)"
    using parse_chunks_data [of "?f 36" True False "?f 40" n "?f 44" ?w] s12 s13 nz by simp
  show ?thesis
    unfolding wav_enhanced_open_read_def
    using s1 s2 s3 by (simp add: fopen_rb_def p1 p2 ftell_def; simp add: zeroed_wav_def)
qed


section \<open>The claims about the handle and the chunk scanner\<close>

text \<open>
  Claim C10. Called with a \<open>NULL\<close> stream handle, or with a \<open>NULL\<close> sample buffer, the
  read and the write operation return \<open>-1\<close> and leave the buffer and the stream as they
  were; on a \<open>NULL\<close> handle the info functions for the original sample rate, channels
  and bits per sample and for the total samples return 0, and \<open>wav_enhanced_close\<close> does
  nothing.
\<close>

theorem null_handles_are_rejected:
  "wav_enhanced_read_samples_16bit_mono_8khz rnd None samples n = Inr (- 1, samples, None) \<and>
   wav_enhanced_read_samples_16bit_mono_8khz rnd wav None n = Inr (- 1, None, wav) \<and>
   wav_enhanced_write_samples None samples n = (- 1, None) \<and>
   wav_enhanced_write_samples wav None n = (- 1, wav) \<and>
   wav_enhanced_get_original_sample_rate None = 0 \<and>
   wav_enhanced_get_original_channels None = 0 \<and>
   wav_enhanced_get_original_bits_per_sample None = 0 \<and>
   wav_enhanced_get_total_samples_8khz_mono rnd None = Inr 0 \<and>
   wav_enhanced_close None = None"
  by (simp add: wav_enhanced_read_samples_16bit_mono_8khz_def wav_enhanced_write_samples_def
      wav_enhanced_get_original_sample_rate_def wav_enhanced_get_original_channels_def
      wav_enhanced_get_original_bits_per_sample_def wav_enhanced_get_total_samples_8khz_mono_def
      wav_enhanced_close_def split: option.splits)

text \<open>
  Unknown chunks that are each followed by exactly the bytes their size declares: inserted
  after the 12-byte RIFF/WAVE header of a container that opens, they are skipped. The new
  container opens with the same \<open>origin_format\<close>, data size and sample total, the data
  offset moved by the length of the inserted chunks, and the stream stands at the data
  offset, before the same unread bytes.
\<close>

lemma chunk_skip_exact_size:
  assumes "length hdr = 12" and "list_all unknown_chunk cs"
    and "wav_enhanced_open_read rnd (Some (hdr @ rest)) = Inr w"
  shows "\<exists>w'. wav_enhanced_open_read rnd (Some (hdr @ concat cs @ rest)) = Inr w' \<and>
     origin_format w' = origin_format w \<and>
     data_region w' = (data_start_pos w + int (length (concat cs)), data_size w) \<and>
     total_samples w' = total_samples w \<and>
     map_option unread (file_ptr w') = map_option unread (file_ptr w) \<and>
     map_option ftell (file_ptr w') = Some (data_start_pos w')"
proof -
  from chunk_skip_strong [OF assms] obtain f g where
    f: "file_ptr w = Some f" "ftell f = data_start_pos w" and u: "unread g = unread f"
    and g: "ftell g = ftell f + int (length (concat cs))"
    and o: "wav_enhanced_open_read rnd (Some (hdr @ concat cs @ rest)) =
       Inr (w\<lparr>data_start_pos := data_start_pos w + int (length (concat cs)), file_ptr := Some g\<rparr>)"
    by blast
  show ?thesis
    unfolding o using f u g by (simp add: origin_format_def data_region_def)
qed

text \<open>A 44100 Hz stereo 16-bit container with one frame, and a \<open>LIST\<close> chunk of two bytes.\<close>

definition list_chunk :: "byte list" where
  "list_chunk = ascii ''LIST'' @ [2, 0, 0, 0, 0xAA, 0xBB]"

definition stereo_44100 :: "byte list" where
  "stereo_44100 = write_wav_header 44100 2 16 4 @ [0x64, 0, 0x2C, 1]"

lemma stereo_44100_opens:
  "wav_enhanced_open_read (\<lambda>x. x) (Some (take 12 stereo_44100 @ drop 12 stereo_44100)) =
     Inr (zeroed_wav\<lparr>
       file_ptr := Some \<lparr>f_bytes = stereo_44100, f_pos = 44, f_eof = False\<rparr>,
       original_sample_rate := 44100, original_channels := 2,
       original_bits_per_sample := 16, original_format := 1,
       target_sample_rate := 8000, target_channels := 1, target_bits_per_sample := 16,
       total_samples := 1, data_start_pos := 44, data_size := 4,
       resample_ratio := 441 / 80, resample_phase := 0, resample_buffer_size := 4096\<rparr>)"
proof -
  have e: "take 12 stereo_44100 @ drop 12 stereo_44100 = stereo_44100"
    by (rule append_take_drop_id)
  show ?thesis
    unfolding e using open_read_canonical [of 2 16 "\<lambda>x. x" 44100 4 "[0x64, 0, 0x2C, 1]"]
    by (simp add: stereo_44100_def)
qed

lemma list_chunk_is_skipped:
  "\<exists>w'. wav_enhanced_open_read (\<lambda>x. x)
          (Some (take 12 stereo_44100 @ concat [list_chunk] @ drop 12 stereo_44100)) = Inr w' \<and>
     origin_format w' = (1, 2, 44100, 16) \<and> data_region w' = (54, 4) \<and> total_samples w' = 1 \<and>
     map_option unread (file_ptr w') = Some [0x64, 0, 0x2C, 1] \<and>
     map_option ftell (file_ptr w') = Some 54"
proof -
  have l: "length (take 12 stereo_44100) = 12" by code_simp
  have c: "list_all unknown_chunk [list_chunk]" by code_simp
  have n: "int (length (concat [list_chunk])) = 10" by code_simp
  have u: "unread \<lparr>f_bytes = stereo_44100, f_pos = 44, f_eof = False\<rparr> = [0x64, 0, 0x2C, 1]"
    by code_simp
  from chunk_skip_exact_size [OF l c stereo_44100_opens] show ?thesis
    unfolding n by (auto simp add: origin_format_def data_region_def u)
qed

text \<open>
  A \<open>LIST\<close> chunk of size 1 as RIFF lays it out: the byte of content and the pad byte that
  follows a chunk of odd size; and the container \<open>stereo_44100\<close> with this chunk inserted
  after its header.
\<close>

definition padded_list_chunk :: "byte list" where
  "padded_list_chunk = ascii ''LIST'' @ [1, 0, 0, 0, 0xAA, 0]"

definition padded_container :: "byte list" where
  "padded_container = take 12 stereo_44100 @ padded_list_chunk @ drop 12 stereo_44100"

lemma padded_scan:
  "parse_chunks zeroed_wav \<lparr>f_bytes = padded_container, f_pos = 12, f_eof = False\<rparr> False False =
     Inr (zeroed_wav, \<lparr>f_bytes = padded_container, f_pos = 4157, f_eof = True\<rparr>, False, False)"
proof -
  let ?at = "\<lambda>p e. \<lparr>f_bytes = padded_container, f_pos = p, f_eof = e\<rparr>"
  have a1: "read_le32 (?at 12 False) = (0x5453494C, ?at 16 False)" by code_simp
  have a2: "read_le32 (?at 16 False) = (1, ?at 20 False)" by code_simp
  have b1: "read_le32 (?at 21 False) = (0x746D6600, ?at 25 False)" by code_simp
  have b2: "read_le32 (?at 25 False) = (0x1020, ?at 29 False)" by code_simp
  have c1: "read_le32 (?at 4157 False) = (0, ?at 4157 True)" by code_simp
  have c2: "read_le32 (?at 4157 True) = (0, ?at 4157 True)" by code_simp
  have s1: "parse_chunks zeroed_wav (?at 12 False) False False =
      parse_chunks zeroed_wav (?at 21 False) False False"
    using parse_chunks_other [OF _ a1 a2, of False False zeroed_wav]
    by (simp add: fseek_cur_def FOURCC_FMT_def FOURCC_DATA_def)
  have s2: "parse_chunks zeroed_wav (?at 21 False) False False =
      parse_chunks zeroed_wav (?at 4157 False) False False"
    using parse_chunks_other [OF _ b1 b2, of False False zeroed_wav]
    by (simp add: fseek_cur_def FOURCC_FMT_def FOURCC_DATA_def)
  have s3: "parse_chunks zeroed_wav (?at 4157 False) False False =
      parse_chunks zeroed_wav (?at 4157 True) False False"
    using parse_chunks_other [OF _ c1 c2, of False False zeroed_wav]
    by (simp add: FOURCC_FMT_def FOURCC_DATA_def)
  have s4: "parse_chunks zeroed_wav (?at 4157 True) False False =
      Inr (zeroed_wav, ?at 4157 True, False, False)"
    by (rule parse_chunks_exit) simp
  show ?thesis using s1 s2 s3 s4 by simp
qed

text \<open>
  Claim C7 fails on the code: the scanner skips the declared size only, not the pad byte
  of a chunk of odd size. With the padded \<open>LIST\<close> chunk inserted it takes the pad byte and
  \<open>fmt\<close> for the next tag, skips 4128 bytes, finds the end of the file, and
  \<open>wav_enhanced_open_read\<close> fails for want of the format and data chunks; without the
  inserted chunk the container opens.
\<close>

theorem padded_chunk_is_not_skipped:
  "map_sum id (\<lambda>w. (origin_format w, data_region w))
     (wav_enhanced_open_read (\<lambda>x. x) (Some (take 12 stereo_44100 @ drop 12 stereo_44100))) =
     Inr ((1, 2, 44100, 16), (44, 4)) \<and>
   wav_enhanced_open_read (\<lambda>x. x)
     (Some (take 12 stereo_44100 @ padded_list_chunk @ drop 12 stereo_44100)) =
     Inl Missing_fmt_or_data"
proof -
  have l: "length (take 12 stereo_44100) = 12" by code_simp
  have h: "le32 (take 12 stereo_44100 ! 0) (take 12 stereo_44100 ! 1) (take 12 stereo_44100 ! 2)
      (take 12 stereo_44100 ! 3) = FOURCC_RIFF"
    "le32 (take 12 stereo_44100 ! 8) (take 12 stereo_44100 ! 9) (take 12 stereo_44100 ! 10)
      (take 12 stereo_44100 ! 11) = FOURCC_WAVE"
    by code_simp+
  have "wav_enhanced_open_read (\<lambda>x. x)
     (Some (take 12 stereo_44100 @ padded_list_chunk @ drop 12 stereo_44100)) =
     Inl Missing_fmt_or_data"
    unfolding open_read_after_header [OF l] h
    using padded_scan by (simp add: padded_container_def)
  then show ?thesis
    unfolding stereo_44100_opens by (simp add: origin_format_def data_region_def zeroed_wav_def)
qed

text \<open>
  Claim C4 fails on the code: a container whose format chunk declares the sample rate 0
  opens, its ratio is 0, and \<open>wav_enhanced_get_total_samples_8khz_mono\<close>, which the
  encoder calls right after opening, divides by that ratio.
\<close>

theorem zero_rate_opens_and_divides:
  "\<exists>w. wav_enhanced_open_read (\<lambda>x. x) (Some (write_wav_header 0 1 16 4 @ [1, 0, 2, 0])) = Inr w \<and>
     original_sample_rate w = 0 \<and> resample_ratio w = 0 \<and>
     wav_enhanced_get_total_samples_8khz_mono (\<lambda>x. x) (Some w) = Inl Float_divide_by_zero"
  using open_read_canonical [of 1 16 "\<lambda>x. x" 0 4 "[1, 0, 2, 0]"]
  by (simp add: wav_enhanced_get_total_samples_8khz_mono_def)

section \<open>Successive reads\<close>

text \<open>
  The encoder reads frame after frame from the stream that \<open>wav_enhanced_open_read\<close>
  returned, into one buffer: \<open>opened\<close> is the pointer returned, \<open>next_read\<close> the next call
  on the stream and buffer the previous call left, \<open>returned\<close> the count of a call with the
  samples it stored, \<open>phase_after\<close> the phase it left.
\<close>

type_synonym read_result = "fault + (int \<times> short list option \<times> wav_enhanced option)"

definition opened :: "open_failure + wav_enhanced \<Rightarrow> wav_enhanced option" where
  "opened r = (case r of Inl e \<Rightarrow> None | Inr w \<Rightarrow> Some w)"

definition next_read :: "(rat \<Rightarrow> rat) \<Rightarrow> uint32 \<Rightarrow> read_result \<Rightarrow> read_result" where
  "next_read rnd num_samples previous =
     (case previous of
        Inl t \<Rightarrow> Inl t
      | Inr (n, samples, wav) \<Rightarrow>
          wav_enhanced_read_samples_16bit_mono_8khz rnd wav samples num_samples)"

definition returned :: "read_result \<Rightarrow> (int \<times> int list) option" where
  "returned r =
     (case r of
        Inl t \<Rightarrow> None
      | Inr (n, samples, wav) \<Rightarrow>
          (case samples of None \<Rightarrow> None | Some buf \<Rightarrow> Some (n, map sint (take (nat n) buf))))"

definition phase_after :: "read_result \<Rightarrow> rat option" where
  "phase_after r =
     (case r of
        Inl t \<Rightarrow> None
      | Inr (n, samples, wav) \<Rightarrow> map_option resample_phase wav)"

text \<open>Two mono 16-bit containers of six samples: \<open>1 .. 6\<close> at 8000 Hz, and
  \<open>0, 10, 20, 30, 50, 60\<close> at 12000 Hz (ratio \<open>3/2\<close>: every \<open>double\<close> of the run below is
  a multiple of \<open>1/2\<close> and exact in binary64, so rounding changes nothing).\<close>

definition mono_8000 :: "byte list" where
  "mono_8000 = write_wav_header 8000 1 16 12 @ [1, 0, 2, 0, 3, 0, 4, 0, 5, 0, 6, 0]"

definition mono_12000 :: "byte list" where
  "mono_12000 = write_wav_header 12000 1 16 12 @ [0, 0, 10, 0, 20, 0, 30, 0, 50, 0, 60, 0]"

lemma mono_8000_opens:
  "opened (wav_enhanced_open_read (\<lambda>x. x) (Some mono_8000)) =
     Some (zeroed_wav\<lparr>
       file_ptr := Some \<lparr>f_bytes = mono_8000, f_pos = 44, f_eof = False\<rparr>,
       original_sample_rate := 8000, original_channels := 1,
       original_bits_per_sample := 16, original_format := 1,
       target_sample_rate := 8000, target_channels := 1, target_bits_per_sample := 16,
       total_samples := 6, data_start_pos := 44, data_size := 12,
       resample_ratio := 1, resample_phase := 0, resample_buffer_size := 4096\<rparr>)"
  using open_read_canonical [of 1 16 "\<lambda>x. x" 8000 12 "[1, 0, 2, 0, 3, 0, 4, 0, 5, 0, 6, 0]"]
  by (simp add: mono_8000_def opened_def)

lemma mono_12000_opens:
  "opened (wav_enhanced_open_read (\<lambda>x. x) (Some mono_12000)) =
     Some (zeroed_wav\<lparr>
       file_ptr := Some \<lparr>f_bytes = mono_12000, f_pos = 44, f_eof = False\<rparr>,
       original_sample_rate := 12000, original_channels := 1,
       original_bits_per_sample := 16, original_format := 1,
       target_sample_rate := 8000, target_channels := 1, target_bits_per_sample := 16,
       total_samples := 6, data_start_pos := 44, data_size := 12,
       resample_ratio := 3 / 2, resample_phase := 0, resample_buffer_size := 4096\<rparr>)"
  using open_read_canonical [of 1 16 "\<lambda>x. x" 12000 12 "[0, 0, 10, 0, 20, 0, 30, 0, 50, 0, 60, 0]"]
  by (simp add: mono_12000_def opened_def)

text \<open>
  Claim C6 fails on the code. The 8000 Hz container holds the samples \<open>1 .. 6\<close>. Read two
  samples at a time, the first call returns \<open>1, 2\<close>, the second \<open>5, 6\<close> and the third 0
  samples: each call takes \<open>num_samples + 2\<close> frames from the file and copies
  \<open>num_samples\<close> of them, so \<open>3, 4\<close> never reach the output.
\<close>

theorem passthrough_reader_drops_samples:
  "returned (wav_enhanced_read_samples_16bit_mono_8khz (\<lambda>x. x)
      (opened (wav_enhanced_open_read (\<lambda>x. x) (Some mono_8000))) (Some [0, 0]) 2)
     = Some (2, [1, 2]) \<and>
   returned (next_read (\<lambda>x. x) 2 (wav_enhanced_read_samples_16bit_mono_8khz (\<lambda>x. x)
      (opened (wav_enhanced_open_read (\<lambda>x. x) (Some mono_8000))) (Some [0, 0]) 2))
     = Some (2, [5, 6]) \<and>
   returned (next_read (\<lambda>x. x) 2 (next_read (\<lambda>x. x) 2
      (wav_enhanced_read_samples_16bit_mono_8khz (\<lambda>x. x)
      (opened (wav_enhanced_open_read (\<lambda>x. x) (Some mono_8000))) (Some [0, 0]) 2)))
     = Some (0, [])"
  unfolding mono_8000_opens by code_simp

text \<open>
  Claim C1 fails on the code. From the 12000 Hz container one call for two samples
  returns \<open>0, 15\<close>; two calls for one sample each return \<open>0\<close> and \<open>40\<close>. The phase after
  the first short call is \<open>(0 + 1 * 3/2) mod 1 = 1/2\<close> as claimed, but that call took three
  frames from the file and used one and a half: the second call interpolates between the
  fourth and fifth source sample instead of the second and third.
\<close>

theorem chunked_resampling_differs:
  "returned (wav_enhanced_read_samples_16bit_mono_8khz (\<lambda>x. x)
      (opened (wav_enhanced_open_read (\<lambda>x. x) (Some mono_12000))) (Some [0, 0]) 2)
     = Some (2, [0, 15]) \<and>
   returned (wav_enhanced_read_samples_16bit_mono_8khz (\<lambda>x. x)
      (opened (wav_enhanced_open_read (\<lambda>x. x) (Some mono_12000))) (Some [0]) 1)
     = Some (1, [0]) \<and>
   phase_after (wav_enhanced_read_samples_16bit_mono_8khz (\<lambda>x. x)
      (opened (wav_enhanced_open_read (\<lambda>x. x) (Some mono_12000))) (Some [0]) 1)
     = Some (1 / 2) \<and>
   returned (next_read (\<lambda>x. x) 1 (wav_enhanced_read_samples_16bit_mono_8khz (\<lambda>x. x)
      (opened (wav_enhanced_open_read (\<lambda>x. x) (Some mono_12000))) (Some [0]) 1))
     = Some (1, [40])"
  unfolding mono_12000_opens by code_simp

section \<open>Properties of the interpolation\<close>

declare resample_loop.simps [simp del]

lemma truncate_of_int: "truncate_toward_zero (of_int n) = n"
  by (simp add: truncate_toward_zero_def)

lemma truncate_mono: "x \<le> y \<Longrightarrow> truncate_toward_zero x \<le> truncate_toward_zero y"
proof -
  assume xy: "x \<le> y"
  show ?thesis
  proof (cases "0 \<le> x")
    case True
    then have "0 \<le> y" using xy by simp
    then show ?thesis using True xy by (simp add: truncate_toward_zero_def floor_mono)
  next
    case False
    show ?thesis
    proof (cases "0 \<le> y")
      case True
      have "\<lceil>x\<rceil> \<le> 0" using False by (simp add: ceiling_le_iff)
      moreover have "0 \<le> \<lfloor>y\<rfloor>" using True by (simp add: le_floor_iff)
      ultimately have "\<lceil>x\<rceil> \<le> \<lfloor>y\<rfloor>" by linarith
      then show ?thesis using False True by (simp add: truncate_toward_zero_def)
    next
      case ny: False
      then show ?thesis using False xy by (simp add: truncate_toward_zero_def ceiling_mono)
    qed
  qed
qed

lemma lerp_between:
  assumes m: "mono rnd" and fixed: "\<And>k::int. \<bar>k\<bar> \<le> 65535 \<Longrightarrow> rnd (of_int k) = of_int k"
    and a: "- 32768 \<le> a" "a \<le> 32767" and b: "- 32768 \<le> b" "b \<le> 32767"
    and f: "0 \<le> fr" "fr \<le> 1"
  shows "min a b \<le> truncate_toward_zero (rnd (of_int a + rnd (fr * of_int (b - a)))) \<and>
         truncate_toward_zero (rnd (of_int a + rnd (fr * of_int (b - a)))) \<le> max a b"
proof -
  define D :: rat where "D = of_int (b - a)"
  define A :: rat where "A = of_int a"
  define B :: rat where "B = of_int b"
  let ?p = "rnd (fr * D)"
  let ?v = "rnd (A + ?p)"
  have r0: "rnd 0 = 0" using fixed [of 0] by simp
  have fa: "rnd A = A" and fb: "rnd B = B"
    unfolding A_def B_def using a b by (intro fixed; simp)+
  have fd: "rnd D = D"
    unfolding D_def using a b by (intro fixed) simp
  have sum: "A + D = B" by (simp add: A_def B_def D_def)
  have ta: "truncate_toward_zero A = a" and tb: "truncate_toward_zero B = b"
    by (simp_all add: A_def B_def truncate_of_int)
  have "min a b \<le> truncate_toward_zero ?v \<and> truncate_toward_zero ?v \<le> max a b"
  proof (cases "0 \<le> D")
    case True
    have "0 \<le> fr * D" using f True by (intro mult_nonneg_nonneg)
    moreover have "fr * D \<le> D"
      using f True mult_right_mono [of fr 1 D] by simp
    ultimately have p: "0 \<le> ?p" "?p \<le> D"
      using monoD [OF m, of 0 "fr * D"] monoD [OF m, of "fr * D" D] r0 fd by simp_all
    have "A \<le> A + ?p" "A + ?p \<le> B"
      using p sum by linarith+
    then have "A \<le> ?v" "?v \<le> B"
      using monoD [OF m, of A "A + ?p"] monoD [OF m, of "A + ?p" B] fa fb by simp_all
    then have "a \<le> truncate_toward_zero ?v" "truncate_toward_zero ?v \<le> b"
      using truncate_mono [of A ?v] truncate_mono [of ?v B] ta tb by simp_all
    then show ?thesis by simp
  next
    case False
    then have neg: "D \<le> 0" by simp
    have "fr * D \<le> 0" using f neg by (intro mult_nonneg_nonpos)
    moreover have "D \<le> fr * D"
      using f neg mult_right_mono_neg [of fr 1 D] by simp
    ultimately have p: "?p \<le> 0" "D \<le> ?p"
      using monoD [OF m, of "fr * D" 0] monoD [OF m, of D "fr * D"] r0 fd by simp_all
    have "A + ?p \<le> A" "B \<le> A + ?p"
      using p sum by linarith+
    then have "?v \<le> A" "B \<le> ?v"
      using monoD [OF m, of "A + ?p" A] monoD [OF m, of B "A + ?p"] fa fb by simp_all
    then have "truncate_toward_zero ?v \<le> a" "b \<le> truncate_toward_zero ?v"
      using truncate_mono [of ?v A] truncate_mono [of B ?v] ta tb by simp_all
    then show ?thesis by simp
  qed
  then show ?thesis unfolding A_def D_def .
qed

lemma interpolate_between:
  assumes m: "mono rnd" and fixed: "\<And>k::int. \<bar>k\<bar> \<le> 65535 \<Longrightarrow> rnd (of_int k) = of_int k"
    and pos: "0 \<le> src_pos" and idx: "truncate_toward_zero src_pos + 1 < int (length input)"
  shows "min (sint (input ! nat (truncate_toward_zero src_pos)))
             (sint (input ! nat (truncate_toward_zero src_pos + 1)))
           \<le> truncate_toward_zero (interpolate rnd input src_pos) \<and>
         truncate_toward_zero (interpolate rnd input src_pos)
           \<le> max (sint (input ! nat (truncate_toward_zero src_pos)))
                  (sint (input ! nat (truncate_toward_zero src_pos + 1)))"
proof -
  let ?idx = "truncate_toward_zero src_pos"
  let ?s1 = "sint (input ! nat ?idx)"
  let ?s2 = "sint (input ! nat (?idx + 1))"
  let ?frac = "rnd (src_pos - of_int ?idx)"
  have r0: "rnd 0 = 0" and r1: "rnd 1 = 1" using fixed [of 0] fixed [of 1] by simp_all
  have v: "interpolate rnd input src_pos =
      rnd (of_int ?s1 + rnd (?frac * of_int (?s2 - ?s1)))"
    using idx unfolding interpolate_def Let_def by (simp only: if_True)
  have fl: "?idx = \<lfloor>src_pos\<rfloor>" using pos by (simp add: truncate_toward_zero_def)
  have "0 \<le> src_pos - of_int ?idx" "src_pos - of_int ?idx \<le> 1"
    unfolding fl by linarith+
  then have f: "0 \<le> ?frac" "?frac \<le> 1"
    using monoD [OF m, of 0 "src_pos - of_int ?idx"] monoD [OF m, of "src_pos - of_int ?idx" 1] r0 r1
    by simp_all
  have s1: "- 32768 \<le> ?s1" "?s1 \<le> 32767"
    using sint_ge [of "input ! nat ?idx"] sint_lt [of "input ! nat ?idx"] by simp_all
  have s2: "- 32768 \<le> ?s2" "?s2 \<le> 32767"
    using sint_ge [of "input ! nat (?idx + 1)"] sint_lt [of "input ! nat (?idx + 1)"] by simp_all
  show ?thesis
    unfolding v by (rule lerp_between [OF m fixed s1 s2 f])
qed

lemma resample_loop_nth:
  "resample_loop rnd phase ratio input m i out = Inr res \<Longrightarrow> length out = i \<Longrightarrow>
     take i res = out \<and> i \<le> length res \<and>
     (\<forall>k. i \<le> k \<and> k < length res \<longrightarrow>
        res ! k = to_short (truncate_toward_zero
                    (interpolate rnd input (src_position rnd phase ratio k))) \<and>
        0 \<le> truncate_toward_zero (src_position rnd phase ratio k) \<and>
        truncate_toward_zero (src_position rnd phase ratio k) + 1 < int (length input))"
proof (induction rnd phase ratio input m i out rule: resample_loop.induct)
  case (1 rnd phase ratio input m i out)
  let ?pos = "src_position rnd phase ratio i"
  let ?idx = "truncate_toward_zero ?pos"
  let ?x = "to_short (truncate_toward_zero (interpolate rnd input ?pos))"
  show ?case
  proof (cases "int i < m \<and> int (length out) < m \<and> \<not> int (length input) - 1 \<le> ?idx \<and> \<not> ?idx < 0")
    case False
    then have "res = out"
      using "1.prems"(1) by (subst (asm) resample_loop.simps) (auto simp: Let_def split: if_splits)
    then show ?thesis using "1.prems"(2) by auto
  next
    case True
    then have rec: "resample_loop rnd phase ratio input m (i + 1) (out @ [?x]) = Inr res"
      using "1.prems"(1) by (subst (asm) resample_loop.simps) (simp add: Let_def)
    have ih: "take (i + 1) res = out @ [?x] \<and> i + 1 \<le> length res \<and>
      (\<forall>k. i + 1 \<le> k \<and> k < length res \<longrightarrow>
        res ! k = to_short (truncate_toward_zero
                    (interpolate rnd input (src_position rnd phase ratio k))) \<and>
        0 \<le> truncate_toward_zero (src_position rnd phase ratio k) \<and>
        truncate_toward_zero (src_position rnd phase ratio k) + 1 < int (length input))"
      using True "1.prems"(2) by (intro "1.IH" [OF _ refl refl _ _ rec]) simp_all
    then have t: "take (i + 1) res = out @ [?x]" and l: "i + 1 \<le> length res" by simp_all
    have "take i res = take i (take (i + 1) res)" by simp
    also have "\<dots> = out" unfolding t using "1.prems"(2) [symmetric] by simp
    finally have a: "take i res = out" .
    have "res ! i = take (i + 1) res ! i" by simp
    also have "\<dots> = ?x" unfolding t using "1.prems"(2) [symmetric] by simp
    finally have b: "res ! i = ?x" .
    have c: "\<And>k. i \<le> k \<Longrightarrow> k < length res \<Longrightarrow>
        res ! k = to_short (truncate_toward_zero
                    (interpolate rnd input (src_position rnd phase ratio k))) \<and>
        0 \<le> truncate_toward_zero (src_position rnd phase ratio k) \<and>
        truncate_toward_zero (src_position rnd phase ratio k) + 1 < int (length input)"
    proof -
      fix k assume k: "i \<le> k" "k < length res"
      show "res ! k = to_short (truncate_toward_zero
                    (interpolate rnd input (src_position rnd phase ratio k))) \<and>
        0 \<le> truncate_toward_zero (src_position rnd phase ratio k) \<and>
        truncate_toward_zero (src_position rnd phase ratio k) + 1 < int (length input)"
      proof (cases "k = i")
        case True
        then show ?thesis using b \<open>int i < m \<and> _\<close> by simp
      next
        case False
        then show ?thesis using ih k by simp
      qed
    qed
    show ?thesis using a l c by simp
  qed
qed


lemma src_position_nonneg:
  assumes m: "mono rnd" and r0: "rnd 0 = 0" and "0 \<le> phase" and "0 \<le> ratio"
  shows "0 \<le> src_position rnd phase ratio i"
proof -
  have "0 \<le> of_nat i * ratio" using assms(4) by simp
  then have "0 \<le> rnd (of_nat i * ratio)" using monoD [OF m, of 0 "of_nat i * ratio"] r0 by simp
  then have "0 \<le> phase + rnd (of_nat i * ratio)" using assms(3) by simp
  then show ?thesis
    unfolding src_position_def using monoD [OF m, of 0 "phase + rnd (of_nat i * ratio)"] r0 by simp
qed

text \<open>
  Claim C5, as amended. Let \<open>rnd\<close> be monotone and leave the integers up to 65535 in
  magnitude unchanged, as the rounding to binary64 does, and let the phase be non-negative,
  as it is after opening and after every call. For the output sample \<open>k\<close> of a call let
  \<open>src_pos = phase + k * ratio\<close>, \<open>idx = (int)src_pos\<close>, \<open>frac = src_pos - idx\<close>,
  \<open>sample1 = input[idx]\<close> and \<open>sample2 = input[idx + 1]\<close>, every operation rounded by
  \<open>rnd\<close>. Then both samples lie in the input, the stored sample is
  \<open>sample1 + frac * (sample2 - sample1)\<close> with its fraction discarded (truncated toward zero,
  not rounded), and it lies between \<open>sample1\<close> and \<open>sample2\<close>, hence in the signed 16-bit
  range: the cast to \<open>short\<close> never has to saturate and never wraps.
\<close>

theorem interpolated_sample_is_truncated:
  assumes m: "mono rnd" and fixed: "\<And>k::int. \<bar>k\<bar> \<le> 65535 \<Longrightarrow> rnd (of_int k) = of_int k"
    and ph: "0 \<le> resample_phase wav" and rate: "original_sample_rate wav \<noteq> 8000"
    and run: "resample_to_8khz rnd wav input max_output_samples = Inr (n, output, wav')"
    and k: "k < length output"
    and ratio: "ratio = rnd (of_int (uint (original_sample_rate wav)) / 8000)"
    and src_pos: "src_pos = rnd (resample_phase wav + rnd (of_nat k * ratio))"
    and idx: "idx = truncate_toward_zero src_pos"
    and fraction: "fraction = rnd (src_pos - of_int idx)"
    and sample1: "sample1 = sint (input ! nat idx)"
    and sample2: "sample2 = sint (input ! nat (idx + 1))"
  shows "0 \<le> idx \<and> idx + 1 < int (length input) \<and>
     sint (output ! k) =
       truncate_toward_zero (rnd (of_int sample1 + rnd (fraction * of_int (sample2 - sample1)))) \<and>
     min sample1 sample2 \<le> sint (output ! k) \<and> sint (output ! k) \<le> max sample1 sample2"
proof -
  have r0: "rnd 0 = 0" using fixed [of 0] by simp
  have u: "(0::rat) \<le> of_int (uint (original_sample_rate wav))"
    by (rule iffD2 [OF of_int_0_le_iff uint_nonnegative])
  have "(0::rat) \<le> of_int (uint (original_sample_rate wav)) / 8000"
    by (rule divide_nonneg_nonneg [OF u]) simp
  then have rn: "0 \<le> ratio"
    unfolding ratio
    using monoD [OF m, of 0 "of_int (uint (original_sample_rate wav)) / 8000"] r0 by simp
  have pos: "src_pos = src_position rnd (resample_phase wav) ratio k"
    by (simp add: src_pos src_position_def)
  from run rate have loop:
    "resample_loop rnd (resample_phase wav) ratio input max_output_samples 0 [] = Inr output"
    by (auto simp: resample_to_8khz_def Let_def ratio split: sum.splits)
  from resample_loop_nth [OF loop] k
  have o: "output ! k = to_short (truncate_toward_zero (interpolate rnd input src_pos))"
    and i: "idx + 1 < int (length input)" and i0: "0 \<le> idx"
    by (simp_all add: pos idx)
  have v: "interpolate rnd input src_pos =
      rnd (of_int sample1 + rnd (fraction * of_int (sample2 - sample1)))"
    using i unfolding interpolate_def Let_def idx fraction sample1 sample2
    by (simp only: if_True)
  have p: "0 \<le> src_pos" unfolding pos by (rule src_position_nonneg [OF m r0 ph rn])
  from interpolate_between [OF m fixed p i [unfolded idx]]
  have b: "min sample1 sample2 \<le> truncate_toward_zero (interpolate rnd input src_pos)"
    "truncate_toward_zero (interpolate rnd input src_pos) \<le> max sample1 sample2"
    by (simp_all add: sample1 sample2 idx)
  have s1: "- 32768 \<le> sample1" "sample1 \<le> 32767"
    unfolding sample1 using sint_ge [of "input ! nat idx"] sint_lt [of "input ! nat idx"] by simp_all
  have s2: "- 32768 \<le> sample2" "sample2 \<le> 32767"
    unfolding sample2
    using sint_ge [of "input ! nat (idx + 1)"] sint_lt [of "input ! nat (idx + 1)"] by simp_all
  have "- 32768 \<le> truncate_toward_zero (interpolate rnd input src_pos)"
    "truncate_toward_zero (interpolate rnd input src_pos) \<le> 32767" using b s1 s2 by linarith+
  then have "sint (output ! k) = truncate_toward_zero (interpolate rnd input src_pos)"
    unfolding o by (rule sint_to_short)
  then show ?thesis using b i i0 by (simp add: v)
qed

text \<open>A stream at 14000 Hz (ratio \<open>7/4\<close>, exact in binary64) with phase 0.\<close>

definition mono_14000_stream :: wav_enhanced where
  "mono_14000_stream = zeroed_wav\<lparr>original_sample_rate := 14000\<rparr>"

theorem interpolated_sample_is_truncated_witness:
  "resample_to_8khz (\<lambda>x. x) mono_14000_stream [0, 10, 31, 3, 4] 2 =
     Inr (2, [0, 25], mono_14000_stream\<lparr>resample_phase := 1 / 2\<rparr>) \<and>
   sint ([0, 25 :: short] ! 1) = truncate_toward_zero (10 + 3 / 4 * (31 - 10) :: rat) \<and>
   truncate_toward_zero (10 + 3 / 4 * (31 - 10) :: rat) = 25 \<and>
   (10 + 3 / 4 * (31 - 10) :: rat) = 103 / 4"
proof -
  have run: "resample_to_8khz (\<lambda>x. x) mono_14000_stream [0, 10, 31, 3, 4] 2 =
     Inr (2, [0, 25], mono_14000_stream\<lparr>resample_phase := 1 / 2\<rparr>)" by code_simp
  have m: "mono (\<lambda>x::rat. x)" by (simp add: mono_def)
  have ph: "0 \<le> resample_phase mono_14000_stream"
    and rate: "original_sample_rate mono_14000_stream \<noteq> 8000"
    by (simp_all add: mono_14000_stream_def zeroed_wav_def)
  have k: "1 < length [0, 25 :: short]" by simp
  have ratio: "(7 / 4 :: rat) = of_int (uint (original_sample_rate mono_14000_stream)) / 8000"
    by (simp add: mono_14000_stream_def zeroed_wav_def)
  have src_pos: "(7 / 4 :: rat) = resample_phase mono_14000_stream + of_nat 1 * (7 / 4)"
    by (simp add: mono_14000_stream_def zeroed_wav_def)
  have idx: "1 = truncate_toward_zero (7 / 4 :: rat)" by code_simp
  have fraction: "(3 / 4 :: rat) = 7 / 4 - of_int 1" by simp
  have s1: "10 = sint ([0, 10, 31, 3, 4 :: short] ! nat 1)" by code_simp
  have s2: "31 = sint ([0, 10, 31, 3, 4 :: short] ! nat (1 + 1))" by code_simp
  have t: "truncate_toward_zero (10 + 3 / 4 * (31 - 10) :: rat) = 25" by code_simp
  from interpolated_sample_is_truncated [of "\<lambda>x. x", OF m _ ph rate run k ratio src_pos idx fraction s1 s2]
  show ?thesis using run t by simp
qed

text \<open>
  Claim C5 as stated fails: at ratio \<open>7/4\<close> the second output of the input
  \<open>0, 1, 2, 3, 4\<close> interpolates \<open>1 + 3/4 * (2 - 1) = 7/4\<close>; the stored sample is 1, the
  nearest integer is 2.
\<close>

theorem interpolation_rounding_counterexample:
  "resample_to_8khz (\<lambda>x. x) mono_14000_stream [0, 1, 2, 3, 4] 2 =
     Inr (2, [0, 1], mono_14000_stream\<lparr>resample_phase := 1 / 2\<rparr>) \<and>
   interpolate (\<lambda>x. x) [0, 1, 2, 3, 4] (src_position (\<lambda>x. x) 0 (7 / 4) 1) = 7 / 4 \<and>
   round (7 / 4 :: rat) = 2"
  by code_simp

section \<open>Writing and closing a container\<close>

text \<open>
  A writing session: \<open>wav_enhanced_open_write\<close>, then one call of
  \<open>wav_enhanced_write_samples\<close> for each block with the block's length as \<open>num_samples\<close>,
  then \<open>wav_enhanced_close\<close>.
\<close>

fun write_blocks :: "wav_enhanced option \<Rightarrow> short list list \<Rightarrow> wav_enhanced option" where
  "write_blocks wav [] = wav"
| "write_blocks wav (b # bs) =
     write_blocks (snd (wav_enhanced_write_samples wav (Some b) (of_nat (length b)))) bs"

text \<open>The stream after the samples \<open>s\<close> were appended to a freshly opened container.\<close>

definition written_stream :: "short list \<Rightarrow> wav_enhanced" where
  "written_stream s =
     zeroed_wav\<lparr>target_sample_rate := 8000, target_channels := 1, target_bits_per_sample := 16,
       file_ptr := Some \<lparr>f_bytes = write_wav_header 8000 1 16 0 @ concat (map short_bytes s),
                         f_pos = 44 + 2 * length s, f_eof = False\<rparr>,
       samples_written := of_nat (length s),
       bytes_written := of_nat (length s) * 2\<rparr>"

lemma header_length: "length (write_wav_header r c b n) = 44"
  by (simp add: write_wav_header_def ascii_def le32_bytes_def le16_bytes_def)

lemma payload_length: "length (concat (map short_bytes s)) = 2 * length s"
  by (induction s) (simp_all add: short_bytes_def)

lemma open_write_stream: "wav_enhanced_open_write True = Some (written_stream [])"
  by code_simp

lemma fwrite_at_end:
  "f_pos f = length (f_bytes f) \<Longrightarrow>
   fwrite bs f = f\<lparr>f_bytes := f_bytes f @ bs, f_pos := f_pos f + length bs\<rparr>"
  by (simp add: fwrite_def)

lemma write_samples_stream:
  assumes "length b < 2 ^ 32"
  shows "wav_enhanced_write_samples (Some (written_stream s)) (Some b) (of_nat (length b)) =
     (int (length b), Some (written_stream (s @ b)))"
proof -
  have u: "unat (of_nat (length b) :: uint32) = length b"
    using assms by (simp add: unat_of_nat)
  let ?f = "\<lparr>f_bytes = write_wav_header 8000 1 16 0 @ concat (map short_bytes s),
            f_pos = 44 + 2 * length s, f_eof = False\<rparr>"
  have "f_pos ?f = length (f_bytes ?f)" by (simp add: header_length payload_length)
  from fwrite_at_end [OF this, of "concat (map short_bytes b)"]
  have w: "fwrite (concat (map short_bytes b)) ?f =
      \<lparr>f_bytes = write_wav_header 8000 1 16 0 @ concat (map short_bytes (s @ b)),
       f_pos = 44 + 2 * length (s @ b), f_eof = False\<rparr>"
    by (simp add: payload_length)
  show ?thesis
    unfolding wav_enhanced_write_samples_def written_stream_def
    by (simp add: u w Let_def zeroed_wav_def distrib_right)
qed

lemma write_blocks_stream:
  "length (concat blocks) < 2 ^ 32 \<Longrightarrow>
   write_blocks (Some (written_stream s)) blocks = Some (written_stream (s @ concat blocks))"
proof (induction blocks arbitrary: s)
  case Nil
  then show ?case by simp
next
  case (Cons b blocks)
  then have "length b < 2 ^ 32" "length (concat blocks) < 2 ^ 32" by simp_all
  then show ?case using Cons.IH [of "s @ b"] by (simp add: write_samples_stream)
qed


text \<open>
  The 44 bytes that \<open>wav_enhanced_open_write\<close> writes: the tag, the top-level size at
  offset 4, the 32 bytes from \<open>WAVE\<close> to the \<open>data\<close> tag, and the data size at offset 40.
\<close>

definition riff_tag :: "byte list" where
  "riff_tag = ascii ''RIFF''"

definition fixed_fields :: "byte list" where
  "fixed_fields = ascii ''WAVE'' @ ascii ''fmt '' @ le32_bytes 16 @ le16_bytes 1 @ le16_bytes 1 @
     le32_bytes 8000 @ le32_bytes 16000 @ le16_bytes 2 @ le16_bytes 16 @ ascii ''data''"

lemma header_form:
  "write_wav_header 8000 1 16 n = riff_tag @ le32_bytes (36 + n) @ fixed_fields @ le32_bytes n"
proof -
  have "(8000 * ucast (1::uint16) * ucast (16::uint16) div 8 :: uint32) = 16000" by simp
  moreover have "(word_of_int (uint (1::uint16) * uint (16::uint16) div 8) :: uint16) = 2" by simp
  ultimately show ?thesis
    unfolding write_wav_header_def riff_tag_def fixed_fields_def by simp
qed

lemma field_lengths:
  "length riff_tag = 4" "length fixed_fields = 32" "length (le32_bytes v) = 4"
  by (simp_all add: riff_tag_def fixed_fields_def ascii_def le32_bytes_def le16_bytes_def)

lemma patch_field:
  assumes "length a = p" and "length old = length new" and "new \<noteq> []"
  shows "fwrite new \<lparr>f_bytes = a @ old @ rest, f_pos = p, f_eof = e\<rparr> =
     \<lparr>f_bytes = a @ new @ rest, f_pos = p + length new, f_eof = e\<rparr>"
  using assms by (simp add: fwrite_def)

lemma close_stream:
  assumes "36 + 2 * length s < 2 ^ 32"
  shows "map_option f_bytes (wav_enhanced_close (Some (written_stream s))) =
     Some (write_wav_header 8000 1 16 (of_nat (2 * length s)) @ concat (map short_bytes s))"
proof (cases "length s = 0")
  case True
  then show ?thesis
    by (simp add: wav_enhanced_close_def written_stream_def zeroed_wav_def)
next
  case False
  let ?P = "concat (map short_bytes s)"
  let ?ds = "of_nat (length s) * 2 :: uint32"
  let ?f = "\<lparr>f_bytes = write_wav_header 8000 1 16 0 @ ?P, f_pos = 44 + 2 * length s, f_eof = False\<rparr>"
  have "unat (of_nat (length s) :: uint32) = length s"
    using assms by (simp add: unat_of_nat)
  then have "(of_nat (length s) :: uint32) \<noteq> 0" using False by (metis unat_0)
  then have pos: "0 < (of_nat (length s) :: uint32)" by (simp add: word_greater_zero_iff)
  have ds: "(2 * of_nat (length s) :: uint32) = ?ds" by simp
  have ne: "le32_bytes v \<noteq> []" for v by (simp add: le32_bytes_def)
  have f1: "write_le32 (36 + ?ds) (fseek_set 4 ?f) =
      \<lparr>f_bytes = riff_tag @ le32_bytes (36 + ?ds) @ fixed_fields @ le32_bytes 0 @ ?P,
       f_pos = 8, f_eof = False\<rparr>"
    unfolding write_le32_def fseek_set_def header_form
    using patch_field [of riff_tag 4 "le32_bytes (36 + 0)" "le32_bytes (36 + ?ds)"
        "fixed_fields @ le32_bytes 0 @ ?P" False]
    by (simp add: field_lengths ne)
  have f2: "write_le32 ?ds (fseek_set 40
        \<lparr>f_bytes = riff_tag @ le32_bytes (36 + ?ds) @ fixed_fields @ le32_bytes 0 @ ?P,
         f_pos = 8, f_eof = False\<rparr>) =
      \<lparr>f_bytes = write_wav_header 8000 1 16 ?ds @ ?P, f_pos = 44, f_eof = False\<rparr>"
    unfolding write_le32_def fseek_set_def header_form
    using patch_field [of "riff_tag @ le32_bytes (36 + ?ds) @ fixed_fields" 40 "le32_bytes 0"
        "le32_bytes ?ds" ?P False]
    by (simp add: field_lengths ne)
  show ?thesis
    unfolding wav_enhanced_close_def written_stream_def
    using pos by (simp add: zeroed_wav_def Let_def ds f1 f2)
qed

text \<open>
  Claim C9, as amended. After a container was opened for writing and blocks holding
  \<open>K\<close> samples in total were appended, with \<open>36 + 2 * K < 2 ^ 32\<close> (the size fields and the
  counters are \<open>uint32_t\<close>), the closed file is the header that was written at opening
  with the top-level size field holding \<open>36 + 2 * K\<close> and the data size field holding
  \<open>2 * K\<close>, followed by the \<open>2 * K\<close> payload bytes: only the two size fields differ from
  what was written before. With no sample written nothing is patched, and the fields keep
  the values written at opening, which are 36 and 0.
\<close>

theorem header_patch_back:
  assumes "36 + 2 * length (concat blocks) < 2 ^ 32"
  shows "map_option f_bytes
       (wav_enhanced_close (write_blocks (wav_enhanced_open_write True) blocks)) =
     Some (riff_tag @ le32_bytes (of_nat (36 + 2 * length (concat blocks))) @ fixed_fields @
           le32_bytes (of_nat (2 * length (concat blocks))) @
           concat (map short_bytes (concat blocks)))"
proof -
  have "length (concat blocks) < 2 ^ 32" using assms by simp
  then have "write_blocks (wav_enhanced_open_write True) blocks =
      Some (written_stream (concat blocks))"
    unfolding open_write_stream using write_blocks_stream [of blocks "[]"] by simp
  then show ?thesis using close_stream [OF assms] by (simp add: header_form)
qed

theorem header_patch_back_witness:
  "36 + 2 * length (concat [[1, 2], [3 :: short]]) < (2 :: nat) ^ 32 \<and>
   map_option f_bytes
       (wav_enhanced_close (write_blocks (wav_enhanced_open_write True) [[1, 2], [3]])) =
     Some (riff_tag @ [42, 0, 0, 0] @ fixed_fields @ [6, 0, 0, 0] @ [1, 0, 2, 0, 3, 0])"
proof -
  have a: "36 + 2 * length (concat [[1, 2], [3 :: short]]) < (2 :: nat) ^ 32" by simp
  have b: "concat (map short_bytes (concat [[1, 2], [3]])) = [1, 0, 2, 0, 3, 0]"
    by code_simp
  have c: "le32_bytes (of_nat (36 + 2 * length (concat [[1, 2], [3 :: short]]))) = [42, 0, 0, 0]"
    "le32_bytes (of_nat (2 * length (concat [[1, 2], [3 :: short]]))) = [6, 0, 0, 0]"
    by code_simp+
  from header_patch_back [OF a] show ?thesis
    unfolding b c using a by simp
qed

text \<open>
  Claim C9 as stated fails on the placeholder: the top-level size field of a container
  closed with no sample written holds 36, as \<open>wav_enhanced_open_write\<close> wrote it, not zero.
\<close>

theorem empty_container_sizes_counterexample:
  "map_option (\<lambda>f. take 4 (drop 4 (f_bytes f)))
     (wav_enhanced_close (write_blocks (wav_enhanced_open_write True) [])) = Some [36, 0, 0, 0]"
  by code_simp

section \<open>The decode loop of \<open>codec2_decode\<close> and \<open>codec2_decode_enhanced\<close>\<close>

text \<open>
  Both decoders run the same loop over the input, which stands after the 16-byte header:
  \<open>while (fread(codec2_bits, 1, bytes_per_frame, input) == bytes_per_frame)\<close>, then
  \<open>codec2_decode\<close>, then the writer, then \<open>frames_decoded++\<close>. \<open>codec2_decode\<close> is the
  library's: from its state, the speech buffer and the bits it gives the new state and the
  speech buffer. The writer is \<open>wav_write_samples\<close> in \<open>codec2_decode\<close> and
  \<open>wav_enhanced_write_samples\<close> in \<open>codec2_decode_enhanced\<close>. \<open>fread\<close> overwrites the
  start of \<open>codec2_bits\<close> with what it delivers. The \<open>int\<close> \<open>bytes_per_frame\<close> is converted
  to \<open>size_t\<close> for \<open>fread\<close> and for the comparison; the counter is an \<open>int\<close>. With
  \<open>bytes_per_frame\<close> 0 the loop never ends.
\<close>

record ('c, 'w) decoder =
  input :: c_file
  codec2 :: 'c
  codec2_bits :: "byte list"
  speech_samples :: "short list"
  wav_out :: 'w
  frames_decoded :: int

definition size_t :: "int \<Rightarrow> nat" where
  "size_t v = nat (v mod 2 ^ 64)"

partial_function (option) decode_loop ::
  "('c \<Rightarrow> short list \<Rightarrow> byte list \<Rightarrow> 'c \<times> short list) \<Rightarrow>
   ('w \<Rightarrow> short list option \<Rightarrow> uint32 \<Rightarrow> int \<times> 'w) \<Rightarrow>
   int \<Rightarrow> int \<Rightarrow> ('c, 'w) decoder \<Rightarrow> ('c, 'w) decoder option" where
  "decode_loop codec2_decode write_samples bytes_per_frame samples_per_frame s =
     (case fread (size_t bytes_per_frame) (input s) of
        (got, f) \<Rightarrow>
          let bits = got @ drop (length got) (codec2_bits s)
          in if length got = size_t bytes_per_frame then
               (case codec2_decode (codec2 s) (speech_samples s) bits of
                  (c, speech) \<Rightarrow>
                    (case write_samples (wav_out s) (Some speech) (word_of_int samples_per_frame) of
                       (written, w) \<Rightarrow>
                         decode_loop codec2_decode write_samples bytes_per_frame samples_per_frame
                           (s\<lparr>input := f, codec2 := c, codec2_bits := bits,
                              speech_samples := speech, wav_out := w,
                              frames_decoded := int32 (frames_decoded s + 1)\<rparr>)))
             else Some (s\<lparr>input := f, codec2_bits := bits\<rparr>))"

text \<open>
  The complete frames of a data region, and what one round of the loop does to the codec
  state, the speech buffer and the output.
\<close>

definition complete_frames :: "nat \<Rightarrow> byte list \<Rightarrow> byte list list" where
  "complete_frames n data = map (\<lambda>k. take n (drop (k * n) data)) [0..<length data div n]"

definition decode_frame ::
  "('c \<Rightarrow> short list \<Rightarrow> byte list \<Rightarrow> 'c \<times> short list) \<Rightarrow>
   ('w \<Rightarrow> short list option \<Rightarrow> uint32 \<Rightarrow> int \<times> 'w) \<Rightarrow>
   int \<Rightarrow> 'c \<times> short list \<times> 'w \<Rightarrow> byte list \<Rightarrow> 'c \<times> short list \<times> 'w" where
  "decode_frame codec2_decode write_samples samples_per_frame st bits =
     (case st of (c, speech, w) \<Rightarrow>
        (case codec2_decode c speech bits of
           (c', speech') \<Rightarrow>
             (c', speech', snd (write_samples w (Some speech') (word_of_int samples_per_frame)))))"

lemma complete_frames_none: "length data < n \<Longrightarrow> complete_frames n data = []"
  by (simp add: complete_frames_def)

lemma complete_frames_step:
  assumes "0 < n" and "n \<le> length data"
  shows "complete_frames n data = take n data # complete_frames n (drop n data)"
proof -
  have d: "length data div n = Suc ((length data - n) div n)"
    using assms by (rule le_div_geq)
  have "map (\<lambda>k. take n (drop (k * n) data)) [0..<Suc ((length data - n) div n)] =
      take n data # map (\<lambda>k. take n (drop (k * n) (drop n data))) [0..<(length data - n) div n]"
    by (simp add: upt_conv_Cons map_Suc_upt [symmetric] add.commute del: upt_Suc)
  then show ?thesis by (simp add: complete_frames_def d)
qed


lemma size_t_of_frame_length:
  "0 < b \<Longrightarrow> b < 2 ^ 31 \<Longrightarrow> size_t b = nat b"
  by (simp add: size_t_def)

lemma int32_add_left: "int32 (int32 a + b) = int32 (a + b)"
  unfolding int32_def by (metis signed_take_bit_add signed_take_bit_signed_take_bit min.idem)

lemma int32_idem: "int32 (int32 a) = int32 a"
  unfolding int32_def by simp

lemma decode_loop_runs:
  fixes s :: "('c, 'w) decoder"
  assumes n: "0 < n" "size_t bytes_per_frame = n"
  shows "length (unread (input s)) div n = k \<Longrightarrow>
     length (codec2_bits s) = n \<Longrightarrow> int32 (frames_decoded s) = frames_decoded s \<Longrightarrow>
     \<exists>s'. decode_loop codec2_decode write_samples bytes_per_frame samples_per_frame s = Some s' \<and>
     (codec2 s', speech_samples s', wav_out s') =
        foldl (decode_frame codec2_decode write_samples samples_per_frame)
          (codec2 s, speech_samples s, wav_out s)
          (complete_frames n (unread (input s))) \<and>
     frames_decoded s' = int32 (frames_decoded s + int k) \<and>
     f_bytes (input s') = f_bytes (input s) \<and>
     f_pos (input s') = f_pos (input s) + length (unread (input s))"
proof (induction k arbitrary: s)
  case 0
  let ?data = "unread (input s)"
  have short: "length ?data < n"
    using 0(1) n(1) by (simp add: div_eq_0_iff)
  then have rd: "fread n (input s) =
      (?data, (input s)\<lparr>f_pos := f_pos (input s) + length ?data, f_eof := True\<rparr>)"
    by (simp add: fread_def Let_def unread_def)
  show ?case
    apply (subst decode_loop.simps)
    using short 0(3) by (simp add: n(2) rd complete_frames_none)
next
  case (Suc k)
  let ?data = "unread (input s)"
  have long: "n \<le> length ?data"
  proof (rule ccontr)
    assume "\<not> n \<le> length ?data"
    then have "length ?data div n = 0" by simp
    with Suc(2) show False by simp
  qed
  define f where "f = (input s)\<lparr>f_pos := f_pos (input s) + n, f_eof := f_eof (input s)\<rparr>"
  have rd: "fread n (input s) = (take n ?data, f)"
    using long by (simp add: fread_def Let_def unread_def f_def min_def)
  have len: "length (take n ?data) = n" using long by simp
  obtain c speech where dec: "codec2_decode (codec2 s) (speech_samples s) (take n ?data) = (c, speech)"
    by (cases "codec2_decode (codec2 s) (speech_samples s) (take n ?data)")
  obtain written w where wr:
    "write_samples (wav_out s) (Some speech) (word_of_int samples_per_frame) = (written, w)"
    by (cases "write_samples (wav_out s) (Some speech) (word_of_int samples_per_frame)")
  define s1 where "s1 = s\<lparr>input := f, codec2 := c, codec2_bits := take n ?data,
      speech_samples := speech, wav_out := w, frames_decoded := int32 (frames_decoded s + 1)\<rparr>"
  have unfold: "decode_loop codec2_decode write_samples bytes_per_frame samples_per_frame s =
      decode_loop codec2_decode write_samples bytes_per_frame samples_per_frame s1"
    apply (subst decode_loop.simps)
    using len Suc(3) by (simp add: n(2) rd dec wr s1_def)
  have left: "unread (input s1) = drop n ?data"
    by (simp add: s1_def f_def unread_def add.commute)
  have k: "length (unread (input s1)) div n = k"
    using le_div_geq [OF n(1) long] Suc(2) by (simp add: left)
  have b: "length (codec2_bits s1) = n" using len by (simp add: s1_def)
  have i: "int32 (frames_decoded s1) = frames_decoded s1" by (simp add: s1_def int32_idem)
  from Suc.IH [OF k b i] obtain s' where
    run: "decode_loop codec2_decode write_samples bytes_per_frame samples_per_frame s1 = Some s'"
    and st: "(codec2 s', speech_samples s', wav_out s') =
        foldl (decode_frame codec2_decode write_samples samples_per_frame)
          (codec2 s1, speech_samples s1, wav_out s1)
          (complete_frames n (unread (input s1)))"
    and fd: "frames_decoded s' = int32 (frames_decoded s1 + int k)"
    and bytes: "f_bytes (input s') = f_bytes (input s1)"
    and ps: "f_pos (input s') = f_pos (input s1) + length (unread (input s1))"
    by blast
  have step: "decode_frame codec2_decode write_samples samples_per_frame
      (codec2 s, speech_samples s, wav_out s) (take n ?data) =
      (codec2 s1, speech_samples s1, wav_out s1)"
    by (simp add: decode_frame_def dec wr s1_def)
  have "frames_decoded s' = int32 (frames_decoded s + int (Suc k))"
    using fd by (simp add: s1_def int32_add_left add.assoc)
  moreover have "f_bytes (input s') = f_bytes (input s)"
    using bytes by (simp add: s1_def f_def)
  moreover have "f_pos (input s') = f_pos (input s) + length ?data"
    using ps long by (simp add: left) (simp add: s1_def f_def)
  moreover have "(codec2 s', speech_samples s', wav_out s') =
        foldl (decode_frame codec2_decode write_samples samples_per_frame)
          (codec2 s, speech_samples s, wav_out s) (complete_frames n ?data)"
    using st by (simp add: complete_frames_step [OF n(1) long] step left)
  ultimately show ?case using run unfold by simp
qed


text \<open>
  A decoder that keeps the frames it was given, and an input of two frames of three bytes
  and one more byte, standing after two bytes.
\<close>

definition recording_decoder :: "byte list list \<Rightarrow> short list \<Rightarrow> byte list \<Rightarrow> byte list list \<times> short list" where
  "recording_decoder frames speech bits = (frames @ [bits], map ucast (take 2 bits))"

definition two_frames_and_a_byte :: "(byte list list, wav_enhanced option) decoder" where
  "two_frames_and_a_byte =
     \<lparr>input = \<lparr>f_bytes = [9, 9, 1, 2, 3, 4, 5, 6, 7], f_pos = 2, f_eof = False\<rparr>,
      codec2 = [], codec2_bits = [0, 0, 0], speech_samples = [0, 0],
      wav_out = wav_enhanced_open_write True, frames_decoded = 0\<rparr>"

text \<open>
  Claim C8. With a positive \<open>bytes_per_frame\<close>, a buffer of that many bytes and the counter
  at 0, the loop ends, whatever the decoder and the writer are. The codec state, the speech
  buffer and the output are those of decoding and writing the complete frames of the
  unread data in order, which are the \<open>data_bytes div bytes_per_frame\<close> successive blocks
  of \<open>bytes_per_frame\<close> bytes; the counter holds that number as an \<open>int\<close>. The trailing
  partial frame is given to no decoder, and the input ends where the data ends, with its
  bytes unchanged.
\<close>

theorem decode_loop_complete_frames:
  fixes s :: "('c, 'w) decoder"
  assumes "0 < bytes_per_frame" and "bytes_per_frame < 2 ^ 31"
    and "length (codec2_bits s) = nat bytes_per_frame"
    and "frames_decoded s = 0"
  shows "\<exists>s'. decode_loop codec2_decode write_samples bytes_per_frame samples_per_frame s = Some s' \<and>
     (codec2 s', speech_samples s', wav_out s') =
        foldl (decode_frame codec2_decode write_samples samples_per_frame)
          (codec2 s, speech_samples s, wav_out s)
          (complete_frames (nat bytes_per_frame) (unread (input s))) \<and>
     length (complete_frames (nat bytes_per_frame) (unread (input s))) =
        length (unread (input s)) div nat bytes_per_frame \<and>
     frames_decoded s' = int32 (int (length (unread (input s)) div nat bytes_per_frame)) \<and>
     f_bytes (input s') = f_bytes (input s) \<and>
     f_pos (input s') = f_pos (input s) + length (unread (input s))"
proof -
  have n: "0 < nat bytes_per_frame" "size_t bytes_per_frame = nat bytes_per_frame"
    using assms(1,2) by (simp_all add: size_t_of_frame_length)
  have z: "int32 (frames_decoded s) = frames_decoded s"
    using assms(4) by (simp add: int32_def)
  from decode_loop_runs [OF n refl assms(3) z, of codec2_decode write_samples samples_per_frame]
  show ?thesis using assms(4) by (simp add: complete_frames_def)
qed

theorem decode_loop_complete_frames_witness:
  "map_option (\<lambda>s'. (codec2 s', frames_decoded s', f_pos (input s'),
        map_option (\<lambda>f. drop 44 (f_bytes f)) (wav_enhanced_close (wav_out s'))))
     (decode_loop recording_decoder wav_enhanced_write_samples 3 2 two_frames_and_a_byte) =
   Some ([[1, 2, 3], [4, 5, 6]], 2, 9, Some [1, 0, 2, 0, 4, 0, 5, 0])"
proof -
  let ?run = "foldl (decode_frame recording_decoder wav_enhanced_write_samples 2)
      (codec2 two_frames_and_a_byte, speech_samples two_frames_and_a_byte,
       wav_out two_frames_and_a_byte)
      (complete_frames (nat 3) (unread (input two_frames_and_a_byte)))"
  have a: "0 < (3::int)" "(3::int) < 2 ^ 31"
    "length (codec2_bits two_frames_and_a_byte) = nat 3"
    "frames_decoded two_frames_and_a_byte = 0"
    by (simp_all add: two_frames_and_a_byte_def)
  have frames: "fst ?run = [[1, 2, 3], [4, 5, 6]]"
    by code_simp
  have out: "map_option (\<lambda>f. drop 44 (f_bytes f)) (wav_enhanced_close (snd (snd ?run))) =
      Some [1, 0, 2, 0, 4, 0, 5, 0]"
    by code_simp
  have cnt: "int32 (int (length (unread (input two_frames_and_a_byte)) div nat 3)) = 2"
    "f_pos (input two_frames_and_a_byte) + length (unread (input two_frames_and_a_byte)) = 9"
    by code_simp+
  from decode_loop_complete_frames [OF a, of recording_decoder wav_enhanced_write_samples 2]
  obtain s' where
    "decode_loop recording_decoder wav_enhanced_write_samples 3 2 two_frames_and_a_byte = Some s'"
    and "(codec2 s', speech_samples s', wav_out s') = ?run"
    and "frames_decoded s' = 2" and "f_pos (input s') = 9"
    unfolding cnt by blast
  moreover from this(2) have "codec2 s' = fst ?run" "wav_out s' = snd (snd ?run)"
    by (metis fst_conv, metis snd_conv)
  ultimately show ?thesis using frames out by simp
qed

end
